theory Spec2Isabelle
  imports Complex_Main "HOL-Library.Word"
begin

section \<open>The batch renderer of packages/core/src/batch/AbstractBatchRenderer.js\<close>

text \<open>
  A shallow embedding of \<^verbatim>\<open>AbstractBatchRenderer\<close>. The renderer object, the objects it
  shares with its callers (base textures, scratch buffers) and the calls it makes on
  the graphics context are one record that every method takes and returns. A method
  that can throw returns \<open>error + state\<close>.

  Counts and cursors that the code only ever increments are \<open>nat\<close>; values that come
  out of a division (\<^verbatim>\<open>vertexData.length / 2\<close>, \<^verbatim>\<open>aIndex / vertexSize\<close>) or are opacities
  and coordinates are \<open>rat\<close>, which holds every finite double. Halving a length is exact
  in doubles. The one product of doubles whose rounding decides a stored value,
  \<^verbatim>\<open>alpha * 255\<close> of line 702, is not computed in \<open>rat\<close>: it is the parameter
  \<open>double_times\<close> of the environment.
\<close>

subsection \<open>JavaScript arrays and numbers\<close>

datatype error = TypeError

text \<open>An array of objects: \<open>None\<close> is \<^verbatim>\<open>null\<close>, \<^verbatim>\<open>undefined\<close> or a hole.\<close>

definition js_get :: "'a option list \<Rightarrow> nat \<Rightarrow> 'a option" where
  "js_get xs i = (if i < length xs then xs ! i else None)"

text \<open>\<^verbatim>\<open>xs[i] = v\<close> on an ordinary array: an index past the end extends the array.\<close>

definition js_set :: "'a option list \<Rightarrow> nat \<Rightarrow> 'a option \<Rightarrow> 'a option list" where
  "js_set xs i v =
     (if i < length xs then xs[i := v]
      else xs @ replicate (i - length xs) None @ [v])"

text \<open>Reading an array of numbers: out of range is \<^verbatim>\<open>undefined\<close>.\<close>

definition num_get :: "rat list \<Rightarrow> nat \<Rightarrow> rat option" where
  "num_get xs i = (if i < length xs then Some (xs ! i) else None)"

text \<open>Truncation towards zero, the first step of \<^verbatim>\<open>ToInt32\<close> and \<^verbatim>\<open>ToUint16\<close>.\<close>

definition js_trunc :: "rat \<Rightarrow> int" where
  "js_trunc q = (if 0 \<le> q then \<lfloor>q\<rfloor> else \<lceil>q\<rceil>)"

text \<open>
  A number that may be non-finite: \<open>None\<close> is \<^verbatim>\<open>NaN\<close> or an infinity (both are stored
  as 0 in an integer typed array, and both absorb the addition of a finite number).
\<close>

definition js_div :: "nat \<Rightarrow> nat \<Rightarrow> rat option" where
  "js_div a b = (if b = 0 then None else Some (of_nat a / of_nat b))"

text \<open>Storing a number in a \<^verbatim>\<open>Uint16Array\<close>.\<close>

definition to_uint16 :: "rat option \<Rightarrow> nat" where
  "to_uint16 x = (case x of None \<Rightarrow> 0 | Some q \<Rightarrow> nat (js_trunc q mod 65536))"

text \<open>
  One 32-bit lane of a \<^verbatim>\<open>ViewableBuffer\<close>, written through \<^verbatim>\<open>float32View\<close> (\<open>F32\<close>
  of the number assigned, \<open>None\<close> for \<^verbatim>\<open>undefined\<close>; the lane holds it rounded to
  binary32, which is not modelled) or through \<^verbatim>\<open>uint32View\<close>. A typed array ignores
  a write past its end, as \<open>xs[i := v]\<close> does.
\<close>

datatype lane = F32 "rat option" | U32 "32 word"

subsection \<open>The objects\<close>

type_synonym texid = nat
type_synonym addr = nat

record BaseTexture =
  alphaMode :: nat
  batchEnabled :: int
  batchLocation :: int
  touched :: int

record Texture =
  valid :: bool
  baseTexture :: texid

record Element =
  vertexData :: "rat list"
  uvs :: "rat list"
  indices :: "nat list"
  worldAlpha :: rat
  tintRGB :: int
  blendMode :: nat
  texture :: Texture

text \<open>
  \<^verbatim>\<open>BatchDrawCall\<close> and \<^verbatim>\<open>BatchTextureArray\<close> are imported from a file that is not
  among the sources; the records hold the fields that this file reads and writes. A
  draw call refers to its texture array by the array's position in the pool.
\<close>

record BatchDrawCall =
  texArray :: "nat option"
  blend :: int
  start :: nat
  size_dc :: int

record BatchTextureArray =
  elements :: "texid option list"
  count :: nat

text \<open>What the renderer asks of the graphics context, in order.\<close>

datatype gl_call =
    GeometryBufferUpdate nat addr "addr option"
  | GeometryBind nat
  | UpdateBuffers
  | TextureBind "texid option"
  | SetBlendMode int
  | DrawElements int nat

text \<open>
  The imports from \<^verbatim>\<open>@pixi/utils\<close> and \<^verbatim>\<open>@pixi/settings\<close>, which are not among the
  sources, are parameters. So is the product of two doubles: \<open>double_times a b\<close> is what
  \<^verbatim>\<open>a * b\<close> evaluates to in IEEE binary64, \<open>None\<close> when that is an infinity.
\<close>

record env =
  premultiplyBlendMode :: "nat \<Rightarrow> nat \<Rightarrow> int"
  premultiplyTint :: "int \<Rightarrow> rat \<Rightarrow> int"
  nextPow2 :: "nat \<Rightarrow> nat"
  log2 :: "nat \<Rightarrow> nat"
  CAN_UPLOAD_SAME_BUFFER :: bool
  double_times :: "rat \<Rightarrow> rat \<Rightarrow> rat option"

text \<open>
  The fields of the renderer (\<^verbatim>\<open>_vertexCount\<close> is \<open>vertexCount\<close>, and so on; \<^verbatim>\<open>size\<close> is
  \<open>size_r\<close>), followed by the shared objects it reaches: \<^verbatim>\<open>BaseTexture._globalBatch\<close>,
  the base textures, the \<^verbatim>\<open>ViewableBuffer\<close>s and \<^verbatim>\<open>Uint16Array\<close>s created so far (by
  address), \<^verbatim>\<open>renderer.textureGC.count\<close>, and the calls made on the graphics context.
  The property \<^verbatim>\<open>length\<close> of the plain objects \<^verbatim>\<open>_aBuffers\<close> and \<^verbatim>\<open>_iBuffers\<close> is
  \<^verbatim>\<open>undefined\<close> until it is assigned.
\<close>

record state =
  vertexSize :: nat
  size_r :: nat
  vertexCount :: rat
  indexCount :: nat
  bufferedElements :: "Element option list"
  bufferedTextures :: "texid option list"
  bufferSize :: nat
  packedGeometries :: "unit option list"
  packedGeometryPoolSize :: nat
  flushId :: nat
  aBuffers :: "nat \<rightharpoonup> addr"
  aBuffers_length :: "nat option"
  iBuffers :: "nat \<rightharpoonup> addr"
  iBuffers_length :: "nat option"
  MAX_TEXTURES :: nat
  drawCalls :: "BatchDrawCall list"
  textureArrays :: "BatchTextureArray list"
  dcIndex :: nat
  aIndex :: nat
  iIndex :: nat
  attributeBuffer :: "addr option"
  indexBuffer :: "addr option"
  globalBatch :: int
  baseTextures :: "texid \<Rightarrow> BaseTexture"
  viewableBuffers :: "addr \<Rightarrow> lane list"
  uint16Arrays :: "addr \<Rightarrow> nat list"
  allocated :: nat
  textureGC_count :: int
  gl :: "gl_call list"

subsection \<open>constructor, initFlushBuffers, contextChange, onPrerender\<close>

text \<open>
  \<open>dc0\<close> and \<open>ta0\<close> are what \<^verbatim>\<open>new BatchDrawCall()\<close> and \<^verbatim>\<open>new BatchTextureArray()\<close>
  return. The loop \<^verbatim>\<open>for (k = 0; k < this.size / 4; k++)\<close> runs for the \<open>k\<close> below
  \<open>size / 4\<close>.
\<close>

definition initFlushBuffers :: "BatchDrawCall \<Rightarrow> BatchTextureArray \<Rightarrow> state \<Rightarrow> state" where
  "initFlushBuffers dc0 ta0 s =
     s\<lparr>drawCalls := replicate ((size_r s + 3) div 4) dc0,
       textureArrays := replicate ((size_r s + 3) div 4) ta0,
       dcIndex := 0, aIndex := 0, iIndex := 0,
       attributeBuffer := None, indexBuffer := None\<rparr>"

text \<open>
  The constructor, for \<^verbatim>\<open>settings.SPRITE_BATCH_SIZE = sbs\<close>, with the \<^verbatim>\<open>vertexSize\<close> the
  subclass sets, in a world with the base textures \<open>texs\<close> and nothing allocated.
\<close>

definition constructor ::
  "nat \<Rightarrow> nat \<Rightarrow> BatchDrawCall \<Rightarrow> BatchTextureArray \<Rightarrow> (texid \<Rightarrow> BaseTexture) \<Rightarrow> state" where
  "constructor sbs vsz dc0 ta0 texs =
     initFlushBuffers dc0 ta0
       \<lparr>vertexSize = vsz, size_r = sbs * 4, vertexCount = 0, indexCount = 0,
        bufferedElements = [], bufferedTextures = [], bufferSize = 0,
        packedGeometries = [], packedGeometryPoolSize = 2, flushId = 0,
        aBuffers = Map.empty, aBuffers_length = None,
        iBuffers = Map.empty, iBuffers_length = None,
        MAX_TEXTURES = 1, drawCalls = [], textureArrays = [],
        dcIndex = 0, aIndex = 0, iIndex = 0,
        attributeBuffer = None, indexBuffer = None,
        globalBatch = 0, baseTextures = texs,
        viewableBuffers = (\<lambda>_. []), uint16Arrays = (\<lambda>_. []), allocated = 0,
        textureGC_count = 0, gl = []\<rparr>"

text \<open>
  \<^verbatim>\<open>contextChange\<close>: \<open>maxTextures\<close> is what the context, the settings and
  \<^verbatim>\<open>checkMaxIfStatementsInShader\<close> give for \<^verbatim>\<open>MAX_TEXTURES\<close>. The shader and the bound
  textures of the batch system are not modelled.
\<close>

fun fill_geometries :: "nat \<Rightarrow> nat \<Rightarrow> unit option list \<Rightarrow> unit option list" where
  "fill_geometries 0 i gs = gs"
| "fill_geometries (Suc n) i gs = fill_geometries n (Suc i) (js_set gs i (Some ()))"

definition contextChange :: "nat \<Rightarrow> state \<Rightarrow> state" where
  "contextChange maxTextures s =
     s\<lparr>MAX_TEXTURES := maxTextures,
       packedGeometries := fill_geometries (packedGeometryPoolSize s) 0 (packedGeometries s)\<rparr>"

definition onPrerender :: "state \<Rightarrow> state" where
  "onPrerender s = s\<lparr>flushId := 0\<rparr>"

subsection \<open>getAttributeBuffer and getIndexBuffer\<close>

text \<open>
  A new \<^verbatim>\<open>ViewableBuffer\<close> of \<open>n\<close> bytes has \<open>n / 4\<close> zeroed lanes; a new buffer gets the
  next free address. An object is always truthy, so \<^verbatim>\<open>!buffer\<close> holds exactly when the
  key is absent.
\<close>

definition getAttributeBuffer :: "env \<Rightarrow> rat \<Rightarrow> state \<Rightarrow> addr \<times> state" where
  "getAttributeBuffer U sz s =
     (let roundedP2 = nextPow2 U (nat \<lceil>sz / 8\<rceil>);
          roundedSizeIndex = log2 U roundedP2;
          roundedSize = roundedP2 * 8;
          s = (if (case aBuffers_length s of None \<Rightarrow> False | Some l \<Rightarrow> l \<le> roundedSizeIndex)
               then s\<lparr>iBuffers_length := Some (roundedSizeIndex + 1)\<rparr> else s)
      in case aBuffers s roundedSize of
           Some buffer \<Rightarrow> (buffer, s)
         | None \<Rightarrow>
             (allocated s,
              s\<lparr>aBuffers := (aBuffers s)(roundedSize \<mapsto> allocated s),
                viewableBuffers := (viewableBuffers s)
                  (allocated s := replicate (roundedSize * vertexSize s) (U32 0)),
                allocated := allocated s + 1\<rparr>))"

definition getIndexBuffer :: "env \<Rightarrow> nat \<Rightarrow> state \<Rightarrow> addr \<times> state" where
  "getIndexBuffer U sz s =
     (let roundedP2 = nextPow2 U (nat \<lceil>(of_nat sz :: rat) / 12\<rceil>);
          roundedSizeIndex = log2 U roundedP2;
          roundedSize = roundedP2 * 12;
          s = (if (case iBuffers_length s of None \<Rightarrow> False | Some l \<Rightarrow> l \<le> roundedSizeIndex)
               then s\<lparr>iBuffers_length := Some (roundedSizeIndex + 1)\<rparr> else s)
      in case iBuffers s roundedSizeIndex of
           Some buffer \<Rightarrow> (buffer, s)
         | None \<Rightarrow>
             (allocated s,
              s\<lparr>iBuffers := (iBuffers s)(roundedSizeIndex \<mapsto> allocated s),
                uint16Arrays := (uint16Arrays s)(allocated s := replicate roundedSize 0),
                allocated := allocated s + 1\<rparr>))"

subsection \<open>packInterleavedGeometry\<close>

text \<open>\<^verbatim>\<open>ToInt32\<close>: an infinity is 0, a finite number is truncated and taken modulo \<open>2^32\<close>.\<close>

definition to_int32 :: "rat option \<Rightarrow> 32 word" where
  "to_int32 x = (case x of None \<Rightarrow> 0 | Some q \<Rightarrow> word_of_int (js_trunc q))"

text \<open>
  The colour of line 702, as \<^verbatim>\<open>uint32View\<close> stores it (\<^verbatim>\<open>ToUint32\<close>). \<^verbatim>\<open>alpha * 255 << 24\<close>
  is \<^verbatim>\<open>ToInt32\<close> of the double product \<^verbatim>\<open>alpha * 255\<close>, shifted left in 32 bits and read
  as a signed number.
\<close>

definition argb :: "env \<Rightarrow> BaseTexture \<Rightarrow> Element \<Rightarrow> 32 word" where
  "argb U tex element =
     (let alpha = min (worldAlpha element) 1 in
      if alpha < 1 \<and> alphaMode tex \<noteq> 0
      then word_of_int (premultiplyTint U (tintRGB element) alpha)
      else word_of_int
             (tintRGB element + sint (push_bit 24 (to_int32 (double_times U alpha 255)))))"

text \<open>The loop over \<^verbatim>\<open>vertexData\<close>, two numbers at a time, six lanes a vertex.\<close>

function pack_vertices ::
  "rat list \<Rightarrow> rat list \<Rightarrow> 32 word \<Rightarrow> int \<Rightarrow> nat \<Rightarrow> lane list \<Rightarrow> nat \<Rightarrow> lane list \<times> nat" where
  "pack_vertices vd uv c loc i view a =
     (if i < length vd then
        pack_vertices vd uv c loc (i + 2)
          (view[a := F32 (num_get vd i),
                a + 1 := F32 (num_get vd (i + 1)),
                a + 2 := F32 (num_get uv i),
                a + 3 := F32 (num_get uv (i + 1)),
                a + 4 := U32 c,
                a + 5 := F32 (Some (of_int loc))])
          (a + 6)
      else (view, a))"
  by pat_completeness auto
termination
  by (relation "measure (\<lambda>(vd, uv, c, loc, i, view, a). length vd - i)") auto

declare pack_vertices.simps [simp del]

text \<open>
  The loop over \<^verbatim>\<open>indices\<close>. The index buffer is \<open>None\<close> when \<^verbatim>\<open>_indexBuffer\<close> is
  \<^verbatim>\<open>null\<close>: the first write then throws.
\<close>

fun pack_indices ::
  "rat option \<Rightarrow> nat list \<Rightarrow> nat list option \<Rightarrow> nat \<Rightarrow> error + (nat list option \<times> nat)" where
  "pack_indices pv [] ib i = Inr (ib, i)"
| "pack_indices pv (x # xs) ib i =
     (case ib of
        None \<Rightarrow> Inl TypeError
      | Some b \<Rightarrow>
          pack_indices pv xs
            (Some (b[i := to_uint16 (map_option (\<lambda>q. q + of_nat x) pv)])) (i + 1))"

text \<open>The local variables of \<^verbatim>\<open>packInterleavedGeometry\<close> and the arrays it writes.\<close>

record packing =
  p_elements :: "Element option list"
  p_view :: "lane list"
  p_indexBuffer :: "nat list option"
  p_aIndex :: nat
  p_iIndex :: nat
  packedVertices :: "rat option"

definition pack_element ::
  "env \<Rightarrow> (texid \<Rightarrow> BaseTexture) \<Rightarrow> nat \<Rightarrow> Element \<Rightarrow> packing \<Rightarrow> error + packing" where
  "pack_element U texs j element p =
     (let tex = texs (baseTexture (texture element));
          va = pack_vertices (vertexData element) (uvs element) (argb U tex element)
                 (batchLocation tex) 0 (p_view p) (p_aIndex p)
      in case pack_indices (packedVertices p) (indices element)
                (p_indexBuffer p) (p_iIndex p) of
           Inl e \<Rightarrow> Inl e
         | Inr (ib, i) \<Rightarrow>
             Inr \<lparr>p_elements = js_set (p_elements p) j None,
                  p_view = fst va, p_indexBuffer = ib,
                  p_aIndex = snd va, p_iIndex = i,
                  packedVertices =
                    map_option (\<lambda>q. q + of_nat (length (vertexData element)) / 2)
                      (packedVertices p)\<rparr>)"

function pack_loop ::
  "env \<Rightarrow> (texid \<Rightarrow> BaseTexture) \<Rightarrow> nat \<Rightarrow> nat \<Rightarrow> packing \<Rightarrow> error + packing" where
  "pack_loop U texs finish j p =
     (if j < finish then
        (case js_get (p_elements p) j of
           None \<Rightarrow> Inl TypeError
         | Some element \<Rightarrow>
             (case pack_element U texs j element p of
                Inl e \<Rightarrow> Inl e
              | Inr p' \<Rightarrow> pack_loop U texs finish (j + 1) p'))
      else Inr p)"
  by pat_completeness auto
termination
  by (relation "measure (\<lambda>(U, texs, finish, j, p). finish - j)") auto

declare pack_loop.simps [simp del]

text \<open>
  Destructuring \<^verbatim>\<open>_attributeBuffer\<close> throws when it is \<^verbatim>\<open>null\<close>. The two views and the
  index buffer are objects: what the loop wrote is stored back at their addresses.
\<close>

definition packInterleavedGeometry :: "env \<Rightarrow> nat \<Rightarrow> nat \<Rightarrow> state \<Rightarrow> error + state" where
  "packInterleavedGeometry U start0 finish s =
     (case attributeBuffer s of
        None \<Rightarrow> Inl TypeError
      | Some ab \<Rightarrow>
          (case pack_loop U (baseTextures s) finish start0
                  \<lparr>p_elements = bufferedElements s,
                   p_view = viewableBuffers s ab,
                   p_indexBuffer = map_option (uint16Arrays s) (indexBuffer s),
                   p_aIndex = aIndex s, p_iIndex = iIndex s,
                   packedVertices = js_div (aIndex s) (vertexSize s)\<rparr> of
             Inl e \<Rightarrow> Inl e
           | Inr p \<Rightarrow>
               Inr (s\<lparr>bufferedElements := p_elements p,
                      viewableBuffers := (viewableBuffers s)(ab := p_view p),
                      uint16Arrays :=
                        (case (indexBuffer s, p_indexBuffer p) of
                           (Some ib, Some b) \<Rightarrow> (uint16Arrays s)(ib := b)
                         | _ \<Rightarrow> uint16Arrays s),
                      aIndex := p_aIndex p, iIndex := p_iIndex p\<rparr>)))"

subsection \<open>buildDrawCalls\<close>

text \<open>
  The local \<^verbatim>\<open>drawCall\<close> is always \<^verbatim>\<open>drawCalls[dcIndex]\<close>; a draw call is updated in
  place. Past the end of the pool \<^verbatim>\<open>drawCalls[dcIndex]\<close> is \<^verbatim>\<open>undefined\<close>, and the
  assignment to its \<^verbatim>\<open>texArray\<close> throws.
\<close>

definition upd_drawCall :: "nat \<Rightarrow> (BatchDrawCall \<Rightarrow> BatchDrawCall) \<Rightarrow> state \<Rightarrow> state" where
  "upd_drawCall dc f s = s\<lparr>drawCalls := (drawCalls s)[dc := f (drawCalls s ! dc)]\<rparr>"

text \<open>
  The body of the \<^verbatim>\<open>if\<close> of lines 430 to 439: it closes the current draw call and
  returns the new \<^verbatim>\<open>start\<close>, the new \<^verbatim>\<open>dcIndex\<close> and the state.
\<close>

definition split_drawCall ::
  "env \<Rightarrow> nat \<Rightarrow> nat \<Rightarrow> nat \<Rightarrow> nat \<Rightarrow> state \<Rightarrow> error + (nat \<times> nat \<times> state)" where
  "split_drawCall U ta i start0 dc s =
     (let s1 = upd_drawCall dc (\<lambda>d. d\<lparr>start := iIndex s\<rparr>) s in
      case packInterleavedGeometry U start0 i s1 of
        Inl e \<Rightarrow> Inl e
      | Inr s2 \<Rightarrow>
          (let s3 = upd_drawCall dc
                      (\<lambda>d. d\<lparr>size_dc := int (iIndex s2) - int (start d)\<rparr>) s2
           in if Suc dc < length (drawCalls s3)
              then Inr (i, Suc dc, upd_drawCall (Suc dc) (\<lambda>d. d\<lparr>texArray := Some ta\<rparr>) s3)
              else Inl TypeError))"

function buildDrawCalls_loop ::
  "env \<Rightarrow> nat \<Rightarrow> nat \<Rightarrow> nat \<Rightarrow> nat \<Rightarrow> nat \<Rightarrow> state \<Rightarrow> error + (nat \<times> nat \<times> state)" where
  "buildDrawCalls_loop U ta finish i start0 dc s =
     (if i < finish then
        (case js_get (bufferedElements s) i of
           None \<Rightarrow> Inl TypeError
         | Some sprite \<Rightarrow>
             (let tex = baseTextures s (baseTexture (texture sprite));
                  spriteBlendMode =
                    premultiplyBlendMode U (if alphaMode tex \<noteq> 0 then 1 else 0)
                      (blendMode sprite)
              in case (if start0 > i \<and> blend (drawCalls s ! dc) \<noteq> spriteBlendMode
                       then split_drawCall U ta i start0 dc s
                       else Inr (start0, dc, s)) of
                   Inl e \<Rightarrow> Inl e
                 | Inr (start1, dc1, s1) \<Rightarrow>
                     buildDrawCalls_loop U ta finish (i + 1) start1 dc1
                       (upd_drawCall dc1 (\<lambda>d. d\<lparr>blend := spriteBlendMode\<rparr>) s1)))
      else Inr (start0, dc, s))"
  by pat_completeness auto
termination
  by (relation "measure (\<lambda>(U, ta, finish, i, start0, dc, s). finish - i)") auto

declare buildDrawCalls_loop.simps [simp del]

definition buildDrawCalls :: "env \<Rightarrow> nat \<Rightarrow> nat \<Rightarrow> nat \<Rightarrow> state \<Rightarrow> error + state" where
  "buildDrawCalls U ta start0 finish s =
     (if dcIndex s < length (drawCalls s) then
        (case buildDrawCalls_loop U ta finish start0 start0 (dcIndex s)
                (upd_drawCall (dcIndex s) (\<lambda>d. d\<lparr>texArray := Some ta, blend := - 1\<rparr>) s) of
           Inl e \<Rightarrow> Inl e
         | Inr (start1, dc, s1) \<Rightarrow>
             (if start (drawCalls s1 ! dc) < finish then
                (case packInterleavedGeometry U start1 finish
                        (upd_drawCall dc (\<lambda>d. d\<lparr>start := iIndex s1\<rparr>) s1) of
                   Inl e \<Rightarrow> Inl e
                 | Inr s2 \<Rightarrow>
                     Inr ((upd_drawCall dc
                             (\<lambda>d. d\<lparr>size_dc := int (iIndex s2) - int (start d)\<rparr>) s2)
                          \<lparr>dcIndex := dc + 1\<rparr>))
              else Inr (s1\<lparr>dcIndex := dc\<rparr>)))
      else Inl TypeError)"

text \<open>
  What \<^verbatim>\<open>packInterleavedGeometry\<close> and \<^verbatim>\<open>buildDrawCalls\<close> leave alone: \<open>s'\<close> is \<open>s\<close>
  but for the buffered elements, the contents of the scratch buffers, the two
  cursors, the draw calls and the draw-call cursor.
\<close>

definition pack_frame :: "state \<Rightarrow> state \<Rightarrow> bool" where
  "pack_frame s s' =
     (s'\<lparr>bufferedElements := bufferedElements s, viewableBuffers := viewableBuffers s,
         uint16Arrays := uint16Arrays s, aIndex := aIndex s, iIndex := iIndex s,
         drawCalls := drawCalls s, dcIndex := dcIndex s\<rparr> = s)"

lemma pack_frame_refl: "pack_frame s s"
  by (simp add: pack_frame_def)

lemma pack_frame_trans: "pack_frame s s' \<Longrightarrow> pack_frame s' s'' \<Longrightarrow> pack_frame s s''"
  unfolding pack_frame_def by (cases s, cases s', cases s'') simp

lemma pack_frame_fields:
  assumes "pack_frame s s'"
  shows "bufferSize s' = bufferSize s" and "MAX_TEXTURES s' = MAX_TEXTURES s"
    and "textureArrays s' = textureArrays s" and "baseTextures s' = baseTextures s"
    and "bufferedTextures s' = bufferedTextures s" and "vertexSize s' = vertexSize s"
    and "attributeBuffer s' = attributeBuffer s" and "indexBuffer s' = indexBuffer s"
    and "vertexCount s' = vertexCount s" and "indexCount s' = indexCount s"
    and "globalBatch s' = globalBatch s" and "textureGC_count s' = textureGC_count s"
    and "gl s' = gl s" and "aBuffers s' = aBuffers s" and "iBuffers s' = iBuffers s"
    and "allocated s' = allocated s" and "size_r s' = size_r s"
    and "packedGeometries s' = packedGeometries s" and "flushId s' = flushId s"
    and "packedGeometryPoolSize s' = packedGeometryPoolSize s"
    and "aBuffers_length s' = aBuffers_length s" and "iBuffers_length s' = iBuffers_length s"
  using assms unfolding pack_frame_def by (cases s, cases s', simp)+

lemma pack_frame_upd_drawCall: "pack_frame s (upd_drawCall dc f s)"
  by (simp add: pack_frame_def upd_drawCall_def)

lemma pack_frame_dcIndex: "pack_frame s (s\<lparr>dcIndex := k\<rparr>)"
  by (simp add: pack_frame_def)

lemma pack_frame_packInterleavedGeometry:
  "packInterleavedGeometry U a b s = Inr s' \<Longrightarrow> pack_frame s s'"
  by (auto simp: packInterleavedGeometry_def pack_frame_def split: option.splits sum.splits)

lemma pack_frame_split_drawCall:
  assumes "split_drawCall U ta i st dc s = Inr (st', dc', s')"
  shows "pack_frame s s'"
proof -
  from assms obtain s2 where
    p: "packInterleavedGeometry U st i (upd_drawCall dc (\<lambda>d. d\<lparr>start := iIndex s\<rparr>) s) = Inr s2"
    and s': "s' = upd_drawCall (Suc dc) (\<lambda>d. d\<lparr>texArray := Some ta\<rparr>)
               (upd_drawCall dc (\<lambda>d. d\<lparr>size_dc := int (iIndex s2) - int (start d)\<rparr>) s2)"
    by (auto simp: split_drawCall_def Let_def split: sum.splits if_splits)
  have "pack_frame s s2"
    using pack_frame_packInterleavedGeometry[OF p] pack_frame_upd_drawCall[of s]
    by (blast intro: pack_frame_trans)
  then show ?thesis
    unfolding s' by (blast intro: pack_frame_trans pack_frame_upd_drawCall)
qed

lemma pack_frame_buildDrawCalls_loop:
  "buildDrawCalls_loop U ta finish i st dc s = Inr (st', dc', s') \<Longrightarrow> pack_frame s s'"
proof (induction U ta finish i st dc s rule: buildDrawCalls_loop.induct)
  case (1 U ta finish i start0 dc s)
  show ?case
  proof (cases "i < finish")
    case False
    with "1.prems" show ?thesis
      by (simp add: buildDrawCalls_loop.simps[of _ _ finish i] pack_frame_refl)
  next
    case True
    from True "1.prems" obtain sprite where sp: "js_get (bufferedElements s) i = Some sprite"
      by (auto simp: buildDrawCalls_loop.simps[of _ _ finish i] split: option.splits)
    define sbm where "sbm = premultiplyBlendMode U
        (if alphaMode (baseTextures s (baseTexture (texture sprite))) \<noteq> 0 then 1 else 0)
        (blendMode sprite)"
    define r where "r = (if start0 > i \<and> blend (drawCalls s ! dc) \<noteq> sbm
                         then split_drawCall U ta i start0 dc s else Inr (start0, dc, s))"
    from True "1.prems" sp obtain st1 dc1 s1 where
      r: "r = Inr (st1, dc1, s1)" and
      rec: "buildDrawCalls_loop U ta finish (i + 1) st1 dc1
              (upd_drawCall dc1 (\<lambda>d. d\<lparr>blend := sbm\<rparr>) s1) = Inr (st', dc', s')"
      by (auto simp: buildDrawCalls_loop.simps[of _ _ finish i] Let_def r_def sbm_def
            split: sum.splits)
    have "pack_frame s s1"
      using r by (auto simp: r_def pack_frame_refl split: if_splits
                    dest: pack_frame_split_drawCall)
    moreover have "pack_frame (upd_drawCall dc1 (\<lambda>d. d\<lparr>blend := sbm\<rparr>) s1) s'"
      using "1.IH"[OF True sp] r rec
      by (auto simp: r_def sbm_def)
    ultimately show ?thesis
      by (blast intro: pack_frame_trans pack_frame_upd_drawCall)
  qed
qed

lemma pack_frame_buildDrawCalls:
  assumes "buildDrawCalls U ta st finish s = Inr s'"
  shows "pack_frame s s'"
proof -
  define s0 where "s0 = upd_drawCall (dcIndex s) (\<lambda>d. d\<lparr>texArray := Some ta, blend := - 1\<rparr>) s"
  from assms obtain st1 dc s1 where
    loop: "buildDrawCalls_loop U ta finish st st (dcIndex s) s0 = Inr (st1, dc, s1)"
    by (auto simp: buildDrawCalls_def s0_def split: if_splits sum.splits)
  have f1: "pack_frame s s1"
    using pack_frame_buildDrawCalls_loop[OF loop] pack_frame_upd_drawCall[of s]
    unfolding s0_def by (blast intro: pack_frame_trans)
  show ?thesis
  proof (cases "start (drawCalls s1 ! dc) < finish")
    case False
    with assms loop have "s' = s1\<lparr>dcIndex := dc\<rparr>"
      by (auto simp: buildDrawCalls_def s0_def split: if_splits sum.splits)
    with f1 show ?thesis
      by (blast intro: pack_frame_trans pack_frame_dcIndex)
  next
    case True
    with assms loop obtain s2 where
      p: "packInterleavedGeometry U st1 finish
            (upd_drawCall dc (\<lambda>d. d\<lparr>start := iIndex s1\<rparr>) s1) = Inr s2" and
      s': "s' = (upd_drawCall dc (\<lambda>d. d\<lparr>size_dc := int (iIndex s2) - int (start d)\<rparr>) s2)
                 \<lparr>dcIndex := dc + 1\<rparr>"
      by (auto simp: buildDrawCalls_def s0_def split: if_splits sum.splits)
    have "pack_frame s1 s2"
      using pack_frame_packInterleavedGeometry[OF p] pack_frame_upd_drawCall[of s1]
      by (blast intro: pack_frame_trans)
    then have "pack_frame s1 s'"
      unfolding s' by (blast intro: pack_frame_trans pack_frame_upd_drawCall pack_frame_dcIndex)
    with f1 show ?thesis
      by (blast intro: pack_frame_trans)
  qed
qed

subsection \<open>buildTexturesAndDrawCalls\<close>

text \<open>
  Lines 386 to 388: the texture is stamped with the tick and appended to the texture
  array at position \<open>k\<close> of the pool.
\<close>

definition stamp_and_append :: "nat \<Rightarrow> texid \<Rightarrow> int \<Rightarrow> state \<Rightarrow> state" where
  "stamp_and_append k tex TICK s =
     s\<lparr>baseTextures := (baseTextures s)
          (tex := (baseTextures s tex)\<lparr>batchEnabled := TICK, touched := textureGC_count s\<rparr>),
       textureArrays := (textureArrays s)
          [k := (textureArrays s ! k)
                  \<lparr>elements := js_set (elements (textureArrays s ! k))
                                 (count (textureArrays s ! k)) (Some tex),
                   count := count (textureArrays s ! k) + 1\<rparr>]\<rparr>"

text \<open>
  One turn of the loop of lines 367 to 389, on the locals \<^verbatim>\<open>start\<close>, \<^verbatim>\<open>countTexArrays\<close> and
  \<^verbatim>\<open>TICK\<close>; the local \<^verbatim>\<open>texArray\<close> is always \<^verbatim>\<open>textureArrays[countTexArrays]\<close>, which
  is \<^verbatim>\<open>undefined\<close> past the end of the pool. The calls on the batch system
  (\<^verbatim>\<open>copyBoundTextures\<close>, \<^verbatim>\<open>boundArray\<close>), which choose the texture units, are not
  modelled.
\<close>

definition buildTextures_step ::
  "env \<Rightarrow> nat \<Rightarrow> nat \<Rightarrow> nat \<Rightarrow> int \<Rightarrow> state \<Rightarrow> error + (nat \<times> nat \<times> int \<times> state)" where
  "buildTextures_step U i start0 cta TICK s =
     (case js_get (bufferedTextures s) i of
        None \<Rightarrow> Inl TypeError
      | Some tex \<Rightarrow>
          (let s1 = s\<lparr>bufferedTextures := js_set (bufferedTextures s) i None\<rparr> in
           if batchEnabled (baseTextures s1 tex) = TICK then Inr (start0, cta, TICK, s1)
           else if cta < length (textureArrays s1) then
             (case (if count (textureArrays s1 ! cta) \<ge> MAX_TEXTURES s1
                    then (case buildDrawCalls U cta start0 i s1 of
                            Inl e \<Rightarrow> Inl e
                          | Inr s2 \<Rightarrow> Inr (i, cta + 1, TICK + 1, s2))
                    else Inr (start0, cta, TICK, s1)) of
                Inl e \<Rightarrow> Inl e
              | Inr (start1, cta1, TICK1, s2) \<Rightarrow>
                  (if cta1 < length (textureArrays s2)
                   then Inr (start1, cta1, TICK1, stamp_and_append cta1 tex TICK1 s2)
                   else Inl TypeError))
           else Inl TypeError))"

lemma bufferSize_buildTextures_step:
  assumes "buildTextures_step U i start0 cta TICK s = Inr (start1, cta1, TICK1, s')"
  shows "bufferSize s' = bufferSize s"
proof -
  from assms obtain tex where tex: "js_get (bufferedTextures s) i = Some tex"
    by (auto simp: buildTextures_step_def split: option.splits)
  define s1 where "s1 = s\<lparr>bufferedTextures := js_set (bufferedTextures s) i None\<rparr>"
  have b1: "bufferSize s1 = bufferSize s"
    by (simp add: s1_def)
  consider "s' = s1"
    | s2 where "buildDrawCalls U cta start0 i s1 = Inr s2" "s' = stamp_and_append cta1 tex TICK1 s2"
    | "s' = stamp_and_append cta1 tex TICK1 s1"
    using assms tex
    by (auto simp: buildTextures_step_def Let_def s1_def split: if_splits sum.splits)
  then show ?thesis
  proof cases
    case 1
    with b1 show ?thesis by simp
  next
    case 2
    with b1 pack_frame_fields(1)[OF pack_frame_buildDrawCalls[OF 2(1)]] show ?thesis
      by (simp add: stamp_and_append_def)
  next
    case 3
    with b1 show ?thesis by (simp add: stamp_and_append_def)
  qed
qed

function buildTextures_loop ::
  "env \<Rightarrow> nat \<Rightarrow> nat \<Rightarrow> nat \<Rightarrow> int \<Rightarrow> state \<Rightarrow> error + (nat \<times> nat \<times> int \<times> state)" where
  "buildTextures_loop U i start0 cta TICK s =
     (if i < bufferSize s then
        (case buildTextures_step U i start0 cta TICK s of
           Inl e \<Rightarrow> Inl e
         | Inr (start1, cta1, TICK1, s1) \<Rightarrow> buildTextures_loop U (i + 1) start1 cta1 TICK1 s1)
      else Inr (start0, cta, TICK, s))"
  by pat_completeness auto
termination
  by (relation "measure (\<lambda>(U, i, start0, cta, TICK, s). bufferSize s - i)")
     (auto dest: bufferSize_buildTextures_step)

declare buildTextures_loop.simps [simp del]

definition buildTexturesAndDrawCalls :: "env \<Rightarrow> state \<Rightarrow> error + state" where
  "buildTexturesAndDrawCalls U s =
     (case buildTextures_loop U 0 0 0 (globalBatch s + 1)
             (s\<lparr>globalBatch := globalBatch s + 1\<rparr>) of
        Inl e \<Rightarrow> Inl e
      | Inr (start1, cta, TICK, s1) \<Rightarrow>
          (if cta < length (textureArrays s1) then
             (if count (textureArrays s1 ! cta) > 0 then
                (case buildDrawCalls U cta start1 (bufferSize s1) s1 of
                   Inl e \<Rightarrow> Inl e
                 | Inr s2 \<Rightarrow> Inr (s2\<lparr>globalBatch := TICK + 1\<rparr>))
              else Inr (s1\<lparr>globalBatch := TICK\<rparr>))
           else Inl TypeError))"

subsection \<open>bindAndClearTexArray, updateGeometry, drawBatches\<close>

function bindAndClear_loop ::
  "nat \<Rightarrow> BatchTextureArray \<Rightarrow> gl_call list \<Rightarrow> BatchTextureArray \<times> gl_call list" where
  "bindAndClear_loop j ta g =
     (if j < count ta then
        bindAndClear_loop (j + 1) (ta\<lparr>elements := js_set (elements ta) j None\<rparr>)
          (g @ [TextureBind (js_get (elements ta) j)])
      else (ta, g))"
  by pat_completeness auto
termination
  by (relation "measure (\<lambda>(j, ta, g). count ta - j)") auto

declare bindAndClear_loop.simps [simp del]

definition bindAndClearTexArray :: "nat \<Rightarrow> state \<Rightarrow> state" where
  "bindAndClearTexArray k s =
     (let r = bindAndClear_loop 0 (textureArrays s ! k) (gl s)
      in s\<lparr>textureArrays := (textureArrays s)[k := (fst r)\<lparr>count := 0\<rparr>], gl := snd r\<rparr>)"

text \<open>
  The packed geometries are objects of the \<^verbatim>\<open>geometryClass\<close> of the subclass; only
  their presence is modelled. \<^verbatim>\<open>packedGeometries[_flushId]\<close> is \<^verbatim>\<open>undefined\<close> before
  \<^verbatim>\<open>contextChange\<close> has filled the pool.
\<close>

definition updateGeometry :: "env \<Rightarrow> state \<Rightarrow> error + state" where
  "updateGeometry U s =
     (if \<not> CAN_UPLOAD_SAME_BUFFER U then
        (let s1 = (if packedGeometryPoolSize s \<le> flushId s
                   then s\<lparr>packedGeometryPoolSize := packedGeometryPoolSize s + 1,
                          packedGeometries := js_set (packedGeometries s) (flushId s) (Some ())\<rparr>
                   else s)
         in case (js_get (packedGeometries s1) (flushId s1), attributeBuffer s1) of
              (Some _, Some ab) \<Rightarrow>
                Inr (s1\<lparr>gl := gl s1 @ [GeometryBufferUpdate (flushId s1) ab (indexBuffer s1),
                                        GeometryBind (flushId s1), UpdateBuffers],
                        flushId := flushId s1 + 1\<rparr>)
            | _ \<Rightarrow> Inl TypeError)
      else
        (case (js_get (packedGeometries s) (flushId s), attributeBuffer s) of
           (Some _, Some ab) \<Rightarrow>
             Inr (s\<lparr>gl := gl s @ [GeometryBufferUpdate (flushId s) ab (indexBuffer s),
                                  UpdateBuffers]\<rparr>)
         | _ \<Rightarrow> Inl TypeError))"

text \<open>
  A draw call's \<^verbatim>\<open>texArray\<close> is \<^verbatim>\<open>null\<close> or a member of the pool; binding \<^verbatim>\<open>null\<close>
  throws in \<^verbatim>\<open>bindAndClearTexArray\<close>.
\<close>

function drawBatches_loop :: "nat \<Rightarrow> nat \<Rightarrow> nat option \<Rightarrow> state \<Rightarrow> error + state" where
  "drawBatches_loop dcCount i curTexArray s =
     (if i < dcCount then
        (if i < length (drawCalls s) then
           (case (if curTexArray \<noteq> texArray (drawCalls s ! i)
                  then (case texArray (drawCalls s ! i) of
                          None \<Rightarrow> Inl TypeError
                        | Some k \<Rightarrow> Inr (bindAndClearTexArray k s))
                  else Inr s) of
              Inl e \<Rightarrow> Inl e
            | Inr s1 \<Rightarrow>
                drawBatches_loop dcCount (i + 1) (texArray (drawCalls s ! i))
                  (s1\<lparr>gl := gl s1 @ [SetBlendMode (blend (drawCalls s ! i)),
                                      DrawElements (size_dc (drawCalls s ! i))
                                        (start (drawCalls s ! i) * 2)]\<rparr>))
         else Inl TypeError)
      else Inr s)"
  by pat_completeness auto
termination
  by (relation "measure (\<lambda>(dcCount, i, curTexArray, s). dcCount - i)") auto

declare drawBatches_loop.simps [simp del]

definition drawBatches :: "state \<Rightarrow> error + state" where
  "drawBatches s = drawBatches_loop (dcIndex s) 0 None s"

subsection \<open>flush, stop, render\<close>

text \<open>
  Lines 538 to 542: the scratch buffers for the buffered totals are fetched and the
  three cursors are reset.
\<close>

definition begin_flush :: "env \<Rightarrow> state \<Rightarrow> state" where
  "begin_flush U s =
     (let r1 = getAttributeBuffer U (vertexCount s) s;
          r2 = getIndexBuffer U (indexCount (snd r1)) (snd r1)
      in (snd r2)\<lparr>attributeBuffer := Some (fst r1), indexBuffer := Some (fst r2),
                   aIndex := 0, iIndex := 0, dcIndex := 0\<rparr>)"

definition flush :: "env \<Rightarrow> state \<Rightarrow> error + state" where
  "flush U s =
     (if vertexCount s = 0 then Inr s
      else
        (case buildTexturesAndDrawCalls U (begin_flush U s) of
           Inl e \<Rightarrow> Inl e
         | Inr s3 \<Rightarrow>
             (case updateGeometry U s3 of
                Inl e \<Rightarrow> Inl e
              | Inr s4 \<Rightarrow>
                  (case drawBatches s4 of
                     Inl e \<Rightarrow> Inl e
                   | Inr s5 \<Rightarrow>
                       Inr (s5\<lparr>bufferSize := 0, vertexCount := 0, indexCount := 0\<rparr>)))))"

definition stop :: "env \<Rightarrow> state \<Rightarrow> error + state" where
  "stop U s = flush U s"

definition render :: "env \<Rightarrow> Element \<Rightarrow> state \<Rightarrow> error + state" where
  "render U element s =
     (if \<not> valid (texture element) then Inr s
      else
        (case (if vertexCount s + of_nat (length (vertexData element)) / 2 > of_nat (size_r s)
               then flush U s else Inr s) of
           Inl e \<Rightarrow> Inl e
         | Inr s1 \<Rightarrow>
             Inr (s1\<lparr>vertexCount := vertexCount s1 + of_nat (length (vertexData element)) / 2,
                     indexCount := indexCount s1 + length (indices element),
                     bufferedTextures := js_set (bufferedTextures s1) (bufferSize s1)
                                           (Some (baseTexture (texture element))),
                     bufferedElements := js_set (bufferedElements s1) (bufferSize s1)
                                           (Some element),
                     bufferSize := bufferSize s1 + 1\<rparr>)))"

subsection \<open>A sample environment and sample inputs\<close>

text \<open>
  Modelled from the spec: \<^verbatim>\<open>nextPow2\<close> of \<^verbatim>\<open>@pixi/utils\<close> is not among the sources; the
  key of a size class is "the smallest power-of-two block \<open>\<ge>\<close> the requested
  capacity".
\<close>

function nextPow2_from :: "nat \<Rightarrow> nat \<Rightarrow> nat" where
  "nextPow2_from p n = (if p = 0 \<or> n \<le> p then p else nextPow2_from (2 * p) n)"
  by pat_completeness auto
termination
  by (relation "measure (\<lambda>(p, n). n - p)") auto

declare nextPow2_from.simps [simp del]

text \<open>
  Modelled from the spec: \<^verbatim>\<open>log2\<close> of \<^verbatim>\<open>@pixi/utils\<close> is not among the sources and the
  spec does not describe it; the sample takes the position of the highest bit.
\<close>

fun log2_floor :: "nat \<Rightarrow> nat" where
  "log2_floor n = (if n < 2 then 0 else Suc (log2_floor (n div 2)))"

declare log2_floor.simps [simp del]

text \<open>
  Modelled from the spec: \<^verbatim>\<open>premultiplyBlendMode\<close> and \<^verbatim>\<open>premultiplyTint\<close> of
  \<^verbatim>\<open>@pixi/utils\<close> are not among the sources. The sample table is "a fixed lookup
  indexed by [alphaMode][blendMode]" that leaves the blend modes of a premultiplied
  texture as they are and moves those of a straight-alpha texture to modes of their
  own; the sample tint "recomputes the RGB channels" by the opacity.
\<close>

definition sample_blend_table :: "nat \<Rightarrow> nat \<Rightarrow> int" where
  "sample_blend_table a b = (if a = 0 then int b + 17 else int b)"

definition sample_premultiplyTint :: "int \<Rightarrow> rat \<Rightarrow> int" where
  "sample_premultiplyTint tint alpha =
     \<lfloor>alpha * 255\<rfloor> * 16777216
     + \<lfloor>of_int (tint div 65536 mod 256) * alpha + 1 / 2\<rfloor> * 65536
     + \<lfloor>of_int (tint div 256 mod 256) * alpha + 1 / 2\<rfloor> * 256
     + \<lfloor>of_int (tint mod 256) * alpha + 1 / 2\<rfloor>"

text \<open>
  The product of two doubles for the samples: the exact product rounded to the nearest
  binary64 number, ties to the even significand (53 bits; below \<open>2^-1022\<close> the spacing
  stays \<open>2^-1074\<close>; a rounded value with exponent 1024 or more is an infinity).
  \<open>binary_exponent q\<close> is the \<open>e\<close> with \<open>2^e \<le> q < 2^(e+1)\<close>, for a positive \<open>q\<close>.
\<close>

function bit_length :: "int \<Rightarrow> int" where
  "bit_length n = (if n \<le> 0 then 0 else bit_length (n div 2) + 1)"
  by pat_completeness auto
termination
  by (relation "measure nat") auto

declare bit_length.simps [simp del]

definition binary_exponent :: "rat \<Rightarrow> int" where
  "binary_exponent q =
     (let k = bit_length (fst (quotient_of q)) - bit_length (snd (quotient_of q))
      in if 2 powi k \<le> q then k else k - 1)"

definition round_half_even :: "rat \<Rightarrow> int" where
  "round_half_even m =
     (if m - of_int \<lfloor>m\<rfloor> < 1 / 2 then \<lfloor>m\<rfloor>
      else if 1 / 2 < m - of_int \<lfloor>m\<rfloor> then \<lfloor>m\<rfloor> + 1
      else if even \<lfloor>m\<rfloor> then \<lfloor>m\<rfloor> else \<lfloor>m\<rfloor> + 1)"

definition round_binary64 :: "rat \<Rightarrow> rat option" where
  "round_binary64 q =
     (if q = 0 then Some 0
      else
        (let ulp = 2 powi (max (binary_exponent \<bar>q\<bar>) (- 1022) - 52);
             r = sgn q * of_int (round_half_even (\<bar>q\<bar> / ulp)) * ulp
         in if binary_exponent \<bar>r\<bar> < 1024 then Some r else None))"

definition sample_double_times :: "rat \<Rightarrow> rat \<Rightarrow> rat option" where
  "sample_double_times a b = round_binary64 (a * b)"

definition env0 :: env where
  "env0 = \<lparr>premultiplyBlendMode = sample_blend_table,
            premultiplyTint = sample_premultiplyTint,
            nextPow2 = nextPow2_from 1, log2 = log2_floor,
            CAN_UPLOAD_SAME_BUFFER = True,
            double_times = sample_double_times\<rparr>"

text \<open>
  A quad with blend mode \<open>bm\<close> and base texture \<open>t\<close>: four vertices, six indices, full
  opacity, a valid texture.
\<close>

definition quad :: "nat \<Rightarrow> texid \<Rightarrow> Element" where
  "quad bm t =
     \<lparr>vertexData = [0, 0, 1, 0, 1, 1, 0, 1], uvs = [0, 0, 1, 0, 1, 1, 0, 1],
      indices = [0, 1, 2, 0, 2, 3], worldAlpha = 1, tintRGB = 16777215,
      blendMode = bm, texture = \<lparr>valid = True, baseTexture = t\<rparr>\<rparr>"

text \<open>
  A renderer as the constructor and \<^verbatim>\<open>contextChange\<close> leave it: a pool of four draw
  calls and four texture arrays (\<^verbatim>\<open>SPRITE_BATCH_SIZE = 4\<close>), six floats a vertex, one
  texture unit; every base texture premultiplied and never batched; new draw calls
  and texture arrays zeroed and empty.
\<close>

definition init0 :: state where
  "init0 =
     contextChange 1
       (constructor 4 6 \<lparr>texArray = None, blend = 0, start = 0, size_dc = 0\<rparr>
          \<lparr>elements = [], count = 0\<rparr>
          (\<lambda>_. \<lparr>alphaMode = 1, batchEnabled = 0, batchLocation = 0, touched = 0\<rparr>))"

text \<open>The same renderer in a world whose base textures are not premultiplied.\<close>

definition init_straight :: state where
  "init_straight =
     contextChange 1
       (constructor 4 6 \<lparr>texArray = None, blend = 0, start = 0, size_dc = 0\<rparr>
          \<lparr>elements = [], count = 0\<rparr>
          (\<lambda>_. \<lparr>alphaMode = 0, batchEnabled = 0, batchLocation = 0, touched = 0\<rparr>))"

text \<open>Calls in sequence; a throw ends the sequence.\<close>

fun run :: "(state \<Rightarrow> error + state) list \<Rightarrow> state \<Rightarrow> error + state" where
  "run [] s = Inr s"
| "run (f # fs) s = (case f s of Inl e \<Rightarrow> Inl e | Inr s' \<Rightarrow> run fs s')"

text \<open>One frame: two quads with the base textures 0 and 1, then a flush.\<close>

definition two_textures :: "(state \<Rightarrow> error + state) list" where
  "two_textures = [render env0 (quad 0 0), render env0 (quad 0 1)]"

definition frame :: "(state \<Rightarrow> error + state) list" where
  "frame = two_textures @ [flush env0]"

text \<open>The state after the calls (the starting state if one of them throws).\<close>

definition after :: "(state \<Rightarrow> error + state) list \<Rightarrow> state \<Rightarrow> state" where
  "after fs s = (case run fs s of Inl e \<Rightarrow> s | Inr s' \<Rightarrow> s')"

lemma run_after:
  "(case run fs s of Inl e \<Rightarrow> False | Inr s' \<Rightarrow> True) \<Longrightarrow> run fs s = Inr (after fs s)"
  by (cases "run fs s") (auto simp: after_def)

lemma run_single: "run [f] s = Inr s' \<Longrightarrow> f s = Inr s'"
  by (cases "f s") auto

subsection \<open>Lemmas on the buffer pool\<close>

lemma iBuffers_length_idem: "iBuffers_length s = v \<Longrightarrow> s\<lparr>iBuffers_length := v\<rparr> = s"
  by (cases s) simp

text \<open>The state after the assignment to \<^verbatim>\<open>_iBuffers.length\<close> in \<^verbatim>\<open>getAttributeBuffer\<close>.\<close>

definition a_length_set :: "env \<Rightarrow> rat \<Rightarrow> state \<Rightarrow> state" where
  "a_length_set U sz s =
     (if (case aBuffers_length s of None \<Rightarrow> False
          | Some l \<Rightarrow> l \<le> log2 U (nextPow2 U (nat \<lceil>sz / 8\<rceil>)))
      then s\<lparr>iBuffers_length := Some (log2 U (nextPow2 U (nat \<lceil>sz / 8\<rceil>)) + 1)\<rparr> else s)"

definition i_length_set :: "env \<Rightarrow> nat \<Rightarrow> state \<Rightarrow> state" where
  "i_length_set U sz s =
     (if (case iBuffers_length s of None \<Rightarrow> False
          | Some l \<Rightarrow> l \<le> log2 U (nextPow2 U (nat \<lceil>(of_nat sz :: rat) / 12\<rceil>)))
      then s\<lparr>iBuffers_length := Some (log2 U (nextPow2 U (nat \<lceil>(of_nat sz :: rat) / 12\<rceil>)) + 1)\<rparr>
      else s)"

lemma a_length_set_idem: "a_length_set U sz (a_length_set U sz s) = a_length_set U sz s"
  by (simp add: a_length_set_def iBuffers_length_idem)

lemma i_length_set_idem: "i_length_set U sz (i_length_set U sz s) = i_length_set U sz s"
  by (simp add: i_length_set_def split: option.splits)

lemma a_length_set_fields:
  "aBuffers (a_length_set U sz s) = aBuffers s"
  "viewableBuffers (a_length_set U sz s) = viewableBuffers s"
  "uint16Arrays (a_length_set U sz s) = uint16Arrays s"
  "allocated (a_length_set U sz s) = allocated s"
  "vertexSize (a_length_set U sz s) = vertexSize s"
  "iBuffers (a_length_set U sz s) = iBuffers s"
  "aBuffers_length (a_length_set U sz s) = aBuffers_length s"
  by (simp_all add: a_length_set_def)

lemma i_length_set_fields:
  "iBuffers (i_length_set U sz s) = iBuffers s"
  "uint16Arrays (i_length_set U sz s) = uint16Arrays s"
  "viewableBuffers (i_length_set U sz s) = viewableBuffers s"
  "allocated (i_length_set U sz s) = allocated s"
  "aBuffers (i_length_set U sz s) = aBuffers s"
  "vertexSize (i_length_set U sz s) = vertexSize s"
  by (simp_all add: i_length_set_def)

lemma getAttributeBuffer_hit:
  "aBuffers s (nextPow2 U (nat \<lceil>sz / 8\<rceil>) * 8) = Some b \<Longrightarrow>
   getAttributeBuffer U sz s = (b, a_length_set U sz s)"
  by (simp add: getAttributeBuffer_def a_length_set_def Let_def)

lemma getAttributeBuffer_miss:
  "aBuffers s (nextPow2 U (nat \<lceil>sz / 8\<rceil>) * 8) = None \<Longrightarrow>
   getAttributeBuffer U sz s =
     (allocated s,
      (a_length_set U sz s)
        \<lparr>aBuffers := (aBuffers s)(nextPow2 U (nat \<lceil>sz / 8\<rceil>) * 8 \<mapsto> allocated s),
         viewableBuffers := (viewableBuffers s)
           (allocated s := replicate (nextPow2 U (nat \<lceil>sz / 8\<rceil>) * 8 * vertexSize s) (U32 0)),
         allocated := allocated s + 1\<rparr>)"
  by (simp add: getAttributeBuffer_def a_length_set_def Let_def)

lemma getIndexBuffer_hit:
  "iBuffers s (log2 U (nextPow2 U (nat \<lceil>(of_nat sz :: rat) / 12\<rceil>))) = Some b \<Longrightarrow>
   getIndexBuffer U sz s = (b, i_length_set U sz s)"
  by (simp add: getIndexBuffer_def i_length_set_def Let_def)

lemma getIndexBuffer_miss:
  "iBuffers s (log2 U (nextPow2 U (nat \<lceil>(of_nat sz :: rat) / 12\<rceil>))) = None \<Longrightarrow>
   getIndexBuffer U sz s =
     (allocated s,
      (i_length_set U sz s)
        \<lparr>iBuffers := (iBuffers s)
           (log2 U (nextPow2 U (nat \<lceil>(of_nat sz :: rat) / 12\<rceil>)) \<mapsto> allocated s),
         uint16Arrays := (uint16Arrays s)
           (allocated s := replicate (nextPow2 U (nat \<lceil>(of_nat sz :: rat) / 12\<rceil>) * 12) 0),
         allocated := allocated s + 1\<rparr>)"
  by (simp add: getIndexBuffer_def i_length_set_def Let_def)

lemma a_length_set_commute:
  "a_length_set U sz (s\<lparr>aBuffers := m, viewableBuffers := h, allocated := n\<rparr>)
   = (a_length_set U sz s)\<lparr>aBuffers := m, viewableBuffers := h, allocated := n\<rparr>"
  by (simp add: a_length_set_def)

lemma i_length_set_commute:
  "i_length_set U sz (s\<lparr>iBuffers := m, uint16Arrays := h, allocated := n\<rparr>)
   = (i_length_set U sz s)\<lparr>iBuffers := m, uint16Arrays := h, allocated := n\<rparr>"
  by (simp add: i_length_set_def)

lemma getAttributeBuffer_twice:
  "getAttributeBuffer U sz (snd (getAttributeBuffer U sz s)) = getAttributeBuffer U sz s"
proof (cases "aBuffers s (nextPow2 U (nat \<lceil>sz / 8\<rceil>) * 8)")
  case None
  show ?thesis
    unfolding getAttributeBuffer_miss[OF None]
    by (subst getAttributeBuffer_hit[where b = "allocated s"])
       (simp_all add: a_length_set_fields a_length_set_commute a_length_set_idem)
next
  case (Some b)
  show ?thesis
    unfolding getAttributeBuffer_hit[OF Some]
    by (subst getAttributeBuffer_hit[where b = b])
       (simp_all add: a_length_set_fields a_length_set_idem Some)
qed

lemma getIndexBuffer_twice:
  "getIndexBuffer U sz (snd (getIndexBuffer U sz s)) = getIndexBuffer U sz s"
proof (cases "iBuffers s (log2 U (nextPow2 U (nat \<lceil>(of_nat sz :: rat) / 12\<rceil>)))")
  case None
  show ?thesis
    unfolding getIndexBuffer_miss[OF None]
    by (subst getIndexBuffer_hit[where b = "allocated s"])
       (simp_all add: i_length_set_fields i_length_set_commute i_length_set_idem)
next
  case (Some b)
  show ?thesis
    unfolding getIndexBuffer_hit[OF Some]
    by (subst getIndexBuffer_hit[where b = b])
       (simp_all add: i_length_set_fields i_length_set_idem Some)
qed

subsection \<open>Lemmas on packInterleavedGeometry\<close>

text \<open>
  The number of vertex records the loop of lines 705 to 713 writes for an element, and
  sums over the buffered elements at the positions \<open>lo\<close> to \<open>hi - 1\<close>.
\<close>

definition records :: "Element \<Rightarrow> nat" where
  "records e = (length (vertexData e) + 1) div 2"

definition elem_sum :: "(Element \<Rightarrow> 'a::comm_monoid_add) \<Rightarrow> Element option list \<Rightarrow> nat \<Rightarrow> nat \<Rightarrow> 'a" where
  "elem_sum f es lo hi = (\<Sum>l\<leftarrow>[lo..<hi]. case js_get es l of None \<Rightarrow> 0 | Some e \<Rightarrow> f e)"

lemma elem_sum_empty [simp]: "hi \<le> lo \<Longrightarrow> elem_sum f es lo hi = 0"
  by (simp add: elem_sum_def)

lemma elem_sum_first:
  "lo < hi \<Longrightarrow> elem_sum f es lo hi
     = (case js_get es lo of None \<Rightarrow> 0 | Some e \<Rightarrow> f e) + elem_sum f es (Suc lo) hi"
  by (simp add: elem_sum_def upt_rec[of lo hi])

lemma elem_sum_last:
  "lo \<le> hi \<Longrightarrow> elem_sum f es lo (Suc hi)
     = elem_sum f es lo hi + (case js_get es hi of None \<Rightarrow> 0 | Some e \<Rightarrow> f e)"
  by (simp add: elem_sum_def)

lemma elem_sum_split:
  assumes "lo \<le> mid" "mid \<le> hi"
  shows "elem_sum f es lo hi = elem_sum f es lo mid + elem_sum f es mid hi"
proof -
  from assms have "[lo..<hi] = [lo..<mid] @ [mid..<hi]"
    using upt_add_eq_append[of lo mid "hi - mid"] by simp
  then show ?thesis
    by (simp add: elem_sum_def)
qed

lemma elem_sum_cong:
  "(\<And>l. lo \<le> l \<Longrightarrow> l < hi \<Longrightarrow> js_get es l = js_get es' l) \<Longrightarrow>
   elem_sum f es lo hi = elem_sum f es' lo hi"
  unfolding elem_sum_def by (rule arg_cong[where f = sum_list]) simp

lemma js_get_js_set:
  "js_get (js_set xs i v) l = (if l = i then v else js_get xs l)"
  by (auto simp: js_get_def js_set_def nth_append)

lemma pack_vertices_cursor:
  "snd (pack_vertices vd uv c loc i view a) = a + 6 * ((length vd - i + 1) div 2)"
proof (induction vd uv c loc i view a rule: pack_vertices.induct)
  case (1 vd uv c loc i view a)
  show ?case
  proof (cases "i < length vd")
    case True
    then have "(length vd - i + 1) div 2 = Suc ((length vd - (i + 2) + 1) div 2)"
      by presburger
    with True "1.IH" show ?thesis
      by (subst pack_vertices.simps) simp
  next
    case False
    then show ?thesis
      by (subst pack_vertices.simps) simp
  qed
qed

lemma pack_vertices_length:
  "length (fst (pack_vertices vd uv c loc i view a)) = length view"
proof (induction vd uv c loc i view a rule: pack_vertices.induct)
  case (1 vd uv c loc i view a)
  show ?case
  proof (cases "i < length vd")
    case True
    with "1.IH" show ?thesis
      by (subst pack_vertices.simps) simp
  next
    case False
    then show ?thesis
      by (subst pack_vertices.simps) simp
  qed
qed

lemma pack_vertices_below:
  "pos < a \<Longrightarrow> fst (pack_vertices vd uv c loc i view a) ! pos = view ! pos"
proof (induction vd uv c loc i view a rule: pack_vertices.induct)
  case (1 vd uv c loc i view a)
  show ?case
  proof (cases "i < length vd")
    case True
    with "1.IH" "1.prems" show ?thesis
      by (subst pack_vertices.simps) simp
  next
    case False
    then show ?thesis
      by (subst pack_vertices.simps) simp
  qed
qed

lemma pack_vertices_colour:
  "r < (length vd - i + 1) div 2 \<Longrightarrow> a + 6 * r + 4 < length view \<Longrightarrow>
   fst (pack_vertices vd uv c loc i view a) ! (a + 6 * r + 4) = U32 c"
proof (induction vd uv c loc i view a arbitrary: r rule: pack_vertices.induct)
  case (1 vd uv c loc i view a)
  from "1.prems"(1) have lt: "i < length vd"
    by (cases "i < length vd") auto
  show ?case
  proof (cases r)
    case 0
    with lt "1.prems"(2) show ?thesis
      by (subst pack_vertices.simps) (simp add: pack_vertices_below)
  next
    case (Suc r')
    with "1.prems"(1) lt have "r' < (length vd - (i + 2) + 1) div 2"
      by presburger
    from "1.IH"[OF lt this] "1.prems"(2) Suc lt show ?thesis
      by (subst pack_vertices.simps) (simp add: algebra_simps)
  qed
qed

lemma pack_indices_Some:
  "\<exists>b'. pack_indices pv xs (Some b) i = Inr (Some b', i + length xs)
        \<and> length b' = length b
        \<and> (\<forall>pos. pos < i \<longrightarrow> b' ! pos = b ! pos)
        \<and> (\<forall>k. k < length xs \<longrightarrow> i + k < length b \<longrightarrow>
              b' ! (i + k) = to_uint16 (map_option (\<lambda>q. q + of_nat (xs ! k)) pv))"
proof (induction xs arbitrary: b i)
  case Nil
  then show ?case by simp
next
  case (Cons x xs)
  let ?b1 = "b[i := to_uint16 (map_option (\<lambda>q. q + of_nat x) pv)]"
  from Cons.IH[of ?b1 "i + 1"] obtain b' where
    r: "pack_indices pv xs (Some ?b1) (i + 1) = Inr (Some b', i + 1 + length xs)"
    and l: "length b' = length ?b1"
    and below: "\<And>pos. pos < i + 1 \<Longrightarrow> b' ! pos = ?b1 ! pos"
    and at: "\<And>k. k < length xs \<Longrightarrow> i + 1 + k < length ?b1 \<Longrightarrow>
              b' ! (i + 1 + k) = to_uint16 (map_option (\<lambda>q. q + of_nat (xs ! k)) pv)"
    by blast
  have "b' ! (i + k) = to_uint16 (map_option (\<lambda>q. q + of_nat ((x # xs) ! k)) pv)"
    if "k < length (x # xs)" "i + k < length b" for k
  proof (cases k)
    case 0
    with that below[of i] show ?thesis by simp
  next
    case (Suc k')
    with that at[of k'] show ?thesis by simp
  qed
  moreover have "b' ! pos = b ! pos" if "pos < i" for pos
    using that below[of pos] by simp
  ultimately show ?case
    using r l by simp
qed

lemma pack_indices_None:
  "pack_indices pv xs None i = Inr r \<Longrightarrow> r = (None, i) \<and> xs = []"
  by (cases xs) auto

lemma pack_element_facts:
  assumes "pack_element U texs j e p = Inr p'"
  shows "p_aIndex p' = p_aIndex p + 6 * records e"
    and "p_iIndex p' = p_iIndex p + length (indices e)"
    and "packedVertices p' =
           map_option (\<lambda>q. q + of_nat (length (vertexData e)) / 2) (packedVertices p)"
    and "p_elements p' = js_set (p_elements p) j None"
    and "length (p_view p') = length (p_view p)"
    and "\<And>pos. pos < p_aIndex p \<Longrightarrow> p_view p' ! pos = p_view p ! pos"
    and "\<And>r. r < records e \<Longrightarrow> p_aIndex p + 6 * r + 4 < length (p_view p) \<Longrightarrow>
           p_view p' ! (p_aIndex p + 6 * r + 4) = U32 (argb U (texs (baseTexture (texture e))) e)"
    and "p_indexBuffer p = None \<Longrightarrow> p_indexBuffer p' = None \<and> indices e = []"
    and "\<And>b. p_indexBuffer p = Some b \<Longrightarrow>
           \<exists>b'. p_indexBuffer p' = Some b' \<and> length b' = length b
             \<and> (\<forall>pos. pos < p_iIndex p \<longrightarrow> b' ! pos = b ! pos)
             \<and> (\<forall>k. k < length (indices e) \<longrightarrow> p_iIndex p + k < length b \<longrightarrow>
                   b' ! (p_iIndex p + k)
                   = to_uint16 (map_option (\<lambda>q. q + of_nat (indices e ! k)) (packedVertices p)))"
proof -
  from assms obtain ib i where
    pi: "pack_indices (packedVertices p) (indices e) (p_indexBuffer p) (p_iIndex p) = Inr (ib, i)"
    and p': "p' = \<lparr>p_elements = js_set (p_elements p) j None,
                   p_view = fst (pack_vertices (vertexData e) (uvs e)
                              (argb U (texs (baseTexture (texture e))) e)
                              (batchLocation (texs (baseTexture (texture e)))) 0
                              (p_view p) (p_aIndex p)),
                   p_indexBuffer = ib,
                   p_aIndex = snd (pack_vertices (vertexData e) (uvs e)
                              (argb U (texs (baseTexture (texture e))) e)
                              (batchLocation (texs (baseTexture (texture e)))) 0
                              (p_view p) (p_aIndex p)),
                   p_iIndex = i,
                   packedVertices = map_option (\<lambda>q. q + of_nat (length (vertexData e)) / 2)
                                      (packedVertices p)\<rparr>"
    by (auto simp: pack_element_def Let_def split: sum.splits)
  show "p_aIndex p' = p_aIndex p + 6 * records e"
    by (simp add: p' pack_vertices_cursor records_def)
  show "packedVertices p' =
           map_option (\<lambda>q. q + of_nat (length (vertexData e)) / 2) (packedVertices p)"
    by (simp add: p')
  show "p_elements p' = js_set (p_elements p) j None"
    by (simp add: p')
  show "length (p_view p') = length (p_view p)"
    by (simp add: p' pack_vertices_length)
  show "\<And>pos. pos < p_aIndex p \<Longrightarrow> p_view p' ! pos = p_view p ! pos"
    by (simp add: p' pack_vertices_below)
  show "\<And>r. r < records e \<Longrightarrow> p_aIndex p + 6 * r + 4 < length (p_view p) \<Longrightarrow>
           p_view p' ! (p_aIndex p + 6 * r + 4) = U32 (argb U (texs (baseTexture (texture e))) e)"
    by (simp add: p' pack_vertices_colour records_def)
  show "p_indexBuffer p = None \<Longrightarrow> p_indexBuffer p' = None \<and> indices e = []"
    using pi pack_indices_None[of "packedVertices p" "indices e" "p_iIndex p" "(ib, i)"]
    by (simp add: p')
  show "p_iIndex p' = p_iIndex p + length (indices e)"
  proof (cases "p_indexBuffer p")
    case None
    with pi pack_indices_None[of "packedVertices p" "indices e" "p_iIndex p" "(ib, i)"]
    show ?thesis by (simp add: p')
  next
    case (Some b)
    with pi pack_indices_Some[of "packedVertices p" "indices e" b "p_iIndex p"]
    show ?thesis by (auto simp: p')
  qed
  show "\<And>b. p_indexBuffer p = Some b \<Longrightarrow>
           \<exists>b'. p_indexBuffer p' = Some b' \<and> length b' = length b
             \<and> (\<forall>pos. pos < p_iIndex p \<longrightarrow> b' ! pos = b ! pos)
             \<and> (\<forall>k. k < length (indices e) \<longrightarrow> p_iIndex p + k < length b \<longrightarrow>
                   b' ! (p_iIndex p + k)
                   = to_uint16 (map_option (\<lambda>q. q + of_nat (indices e ! k)) (packedVertices p)))"
  proof -
    fix b assume b: "p_indexBuffer p = Some b"
    from pack_indices_Some[of "packedVertices p" "indices e" b "p_iIndex p"] pi b
    show "\<exists>b'. p_indexBuffer p' = Some b' \<and> length b' = length b
             \<and> (\<forall>pos. pos < p_iIndex p \<longrightarrow> b' ! pos = b ! pos)
             \<and> (\<forall>k. k < length (indices e) \<longrightarrow> p_iIndex p + k < length b \<longrightarrow>
                   b' ! (p_iIndex p + k)
                   = to_uint16 (map_option (\<lambda>q. q + of_nat (indices e ! k)) (packedVertices p)))"
      by (auto simp: p')
  qed
qed

lemma pack_loop_done: "\<not> j < finish \<Longrightarrow> pack_loop U texs finish j p = Inr p"
  by (subst pack_loop.simps) simp

lemma pack_loop_step:
  assumes "j < finish" "pack_loop U texs finish j p = Inr p'"
  obtains e p1 where "js_get (p_elements p) j = Some e"
    and "pack_element U texs j e p = Inr p1"
    and "pack_loop U texs finish (Suc j) p1 = Inr p'"
  using assms
  by (subst (asm) pack_loop.simps) (auto split: option.splits sum.splits)

definition vcount :: "Element \<Rightarrow> rat" where
  "vcount e = of_nat (length (vertexData e)) / 2"

definition icount :: "Element \<Rightarrow> nat" where
  "icount e = length (indices e)"

lemma pack_loop_facts:
  assumes "pack_loop U texs finish j p = Inr p'" "j \<le> finish"
  shows "p_aIndex p' = p_aIndex p + 6 * elem_sum records (p_elements p) j finish
    \<and> p_iIndex p' = p_iIndex p + elem_sum icount (p_elements p) j finish
    \<and> packedVertices p' =
        map_option (\<lambda>q. q + elem_sum vcount (p_elements p) j finish) (packedVertices p)
    \<and> length (p_view p') = length (p_view p)
    \<and> length (p_elements p') = length (p_elements p)
    \<and> (\<forall>l. js_get (p_elements p') l
             = (if j \<le> l \<and> l < finish then None else js_get (p_elements p) l))
    \<and> (\<forall>l. j \<le> l \<longrightarrow> l < finish \<longrightarrow> js_get (p_elements p) l \<noteq> None)
    \<and> (\<forall>pos. pos < p_aIndex p \<longrightarrow> p_view p' ! pos = p_view p ! pos)
    \<and> (p_indexBuffer p = None \<longrightarrow> p_indexBuffer p' = None)
    \<and> (\<forall>b. p_indexBuffer p = Some b \<longrightarrow>
          (\<exists>b'. p_indexBuffer p' = Some b' \<and> length b' = length b
             \<and> (\<forall>pos. pos < p_iIndex p \<longrightarrow> b' ! pos = b ! pos)))"
  using assms
proof (induction "finish - j" arbitrary: j p)
  case 0
  then have "p' = p"
    by (simp add: pack_loop_done)
  moreover from 0 have "finish = j"
    by simp
  ultimately show ?case
    by (clarsimp simp: option.map_ident)
next
  case (Suc n)
  then have lt: "j < finish"
    by simp
  from pack_loop_step[OF lt Suc.prems(1)] obtain e p1 where
    e: "js_get (p_elements p) j = Some e"
    and pe: "pack_element U texs j e p = Inr p1"
    and rest: "pack_loop U texs finish (Suc j) p1 = Inr p'"
    by blast
  note f = pack_element_facts[OF pe]
  from Suc.hyps(2) lt have n: "n = finish - Suc j" and le: "Suc j \<le> finish"
    by simp_all
  note IH = Suc.hyps(1)[OF n rest le]
  note ih = IH[THEN conjunct1] IH[THEN conjunct2, THEN conjunct1] IH[THEN conjunct2, THEN conjunct2, THEN conjunct1] IH[THEN conjunct2, THEN conjunct2, THEN conjunct2, THEN conjunct1] IH[THEN conjunct2, THEN conjunct2, THEN conjunct2, THEN conjunct2, THEN conjunct1] IH[THEN conjunct2, THEN conjunct2, THEN conjunct2, THEN conjunct2, THEN conjunct2, THEN conjunct1] IH[THEN conjunct2, THEN conjunct2, THEN conjunct2, THEN conjunct2, THEN conjunct2, THEN conjunct2, THEN conjunct1] IH[THEN conjunct2, THEN conjunct2, THEN conjunct2, THEN conjunct2, THEN conjunct2, THEN conjunct2, THEN conjunct2, THEN conjunct1] IH[THEN conjunct2, THEN conjunct2, THEN conjunct2, THEN conjunct2, THEN conjunct2, THEN conjunct2, THEN conjunct2, THEN conjunct2, THEN conjunct1] IH[THEN conjunct2, THEN conjunct2, THEN conjunct2, THEN conjunct2, THEN conjunct2, THEN conjunct2, THEN conjunct2, THEN conjunct2, THEN conjunct2]
  have jl: "j < length (p_elements p)"
    using e by (auto simp: js_get_def split: if_splits)
  have same: "elem_sum g (p_elements p1) (Suc j) finish = elem_sum g (p_elements p) (Suc j) finish"
    for g :: "Element \<Rightarrow> 'a::comm_monoid_add"
    by (rule elem_sum_cong) (simp add: f(4) js_get_js_set)
  have first: "elem_sum g (p_elements p) j finish = g e + elem_sum g (p_elements p) (Suc j) finish"
    for g :: "Element \<Rightarrow> 'a::comm_monoid_add"
    using elem_sum_first[OF lt, of g "p_elements p"] e by simp
  have c1: "p_aIndex p' = p_aIndex p + 6 * elem_sum records (p_elements p) j finish"
    using ih(1) f(1) by (simp add: same first[of records])
  have c2: "p_iIndex p' = p_iIndex p + elem_sum icount (p_elements p) j finish"
    using ih(2) f(2) by (simp add: same first[of icount] icount_def)
  have c3: "packedVertices p' =
        map_option (\<lambda>q. q + elem_sum vcount (p_elements p) j finish) (packedVertices p)"
    using ih(3) f(3)
    by (simp add: same first[of vcount] vcount_def option.map_comp comp_def add.assoc)
  have c4: "length (p_view p') = length (p_view p)"
    using ih(4) f(5) by simp
  have c5: "length (p_elements p') = length (p_elements p)"
    using ih(5) f(4) jl by (simp add: js_set_def)
  have c6: "js_get (p_elements p') l
             = (if j \<le> l \<and> l < finish then None else js_get (p_elements p) l)" for l
    using ih(6)[rule_format, of l] f(4) lt by (auto simp: js_get_js_set)
  have c7: "js_get (p_elements p) l \<noteq> None" if "j \<le> l" "l < finish" for l
  proof (cases "l = j")
    case True
    with e show ?thesis by simp
  next
    case False
    with that ih(7)[rule_format, of l] have "js_get (p_elements p1) l \<noteq> None"
      by simp
    with False show ?thesis
      by (simp add: f(4) js_get_js_set)
  qed
  have c8: "p_view p' ! pos = p_view p ! pos" if "pos < p_aIndex p" for pos
    using that ih(8)[rule_format, of pos] f(1) f(6)[of pos] by simp
  have c9: "p_indexBuffer p = None \<longrightarrow> p_indexBuffer p' = None"
    using ih(9) f(8) by simp
  have c10: "\<exists>b'. p_indexBuffer p' = Some b' \<and> length b' = length b
             \<and> (\<forall>pos. pos < p_iIndex p \<longrightarrow> b' ! pos = b ! pos)"
    if b: "p_indexBuffer p = Some b" for b
  proof -
    from f(9)[OF b] obtain b1 where b1: "p_indexBuffer p1 = Some b1" "length b1 = length b"
      "\<And>pos. pos < p_iIndex p \<Longrightarrow> b1 ! pos = b ! pos"
      by blast
    with ih(10) obtain b' where b': "p_indexBuffer p' = Some b'" "length b' = length b1"
      "\<And>pos. pos < p_iIndex p1 \<Longrightarrow> b' ! pos = b1 ! pos"
      by blast
    have "b' ! pos = b ! pos" if "pos < p_iIndex p" for pos
      using that b'(3)[of pos] b1(3)[of pos] f(2) by simp
    with b' b1 show ?thesis
      by simp
  qed
  show ?case
    by (intro conjI allI impI c1 c2 c3 c4 c5 c6 c7 c8 c9[rule_format] c10)
qed

lemma pack_loop_colour:
  assumes "pack_loop U texs finish j p = Inr p'" "j \<le> l" "l < finish"
    and "js_get (p_elements p) l = Some e" "r < records e"
    and "p_aIndex p + 6 * (elem_sum records (p_elements p) j l + r) + 4 < length (p_view p)"
  shows "p_view p' ! (p_aIndex p + 6 * (elem_sum records (p_elements p) j l + r) + 4)
         = U32 (argb U (texs (baseTexture (texture e))) e)"
  using assms
proof (induction "finish - j" arbitrary: j p)
  case 0
  then show ?case by simp
next
  case (Suc n)
  then have lt: "j < finish"
    by simp
  from pack_loop_step[OF lt Suc.prems(1)] obtain e0 p1 where
    e0: "js_get (p_elements p) j = Some e0"
    and pe: "pack_element U texs j e0 p = Inr p1"
    and rest: "pack_loop U texs finish (Suc j) p1 = Inr p'"
    by blast
  note f = pack_element_facts[OF pe]
  from Suc.hyps(2) lt have n: "n = finish - Suc j" and le: "Suc j \<le> finish"
    by simp_all
  note lf = pack_loop_facts[OF rest le]
  show ?case
  proof (cases "l = j")
    case True
    with e0 Suc.prems(4) have ee: "e0 = e"
      by simp
    from True have z: "elem_sum records (p_elements p) j l = 0"
      by simp
    from Suc.prems(5) have "p_aIndex p + 6 * r + 4 < p_aIndex p1"
      by (simp add: f(1) ee)
    with lf[THEN conjunct2, THEN conjunct2, THEN conjunct2, THEN conjunct2, THEN conjunct2,
            THEN conjunct2, THEN conjunct2, THEN conjunct1, rule_format,
            of "p_aIndex p + 6 * r + 4"]
    have "p_view p' ! (p_aIndex p + 6 * r + 4) = p_view p1 ! (p_aIndex p + 6 * r + 4)"
      by simp
    also have "\<dots> = U32 (argb U (texs (baseTexture (texture e))) e)"
      using f(7)[of r] Suc.prems(5,6) by (simp add: ee z)
    finally show ?thesis
      by (simp add: z)
  next
    case False
    with Suc.prems(2) have jl: "Suc j \<le> l" "j < l"
      by simp_all
    have el: "js_get (p_elements p1) l = Some e"
      using Suc.prems(4) False by (simp add: f(4) js_get_js_set)
    have same: "elem_sum records (p_elements p1) (Suc j) l = elem_sum records (p_elements p) (Suc j) l"
      by (rule elem_sum_cong) (simp add: f(4) js_get_js_set)
    have first: "elem_sum records (p_elements p) j l
                 = records e0 + elem_sum records (p_elements p) (Suc j) l"
      using elem_sum_first[OF jl(2), of records "p_elements p"] e0 by simp
    have pos: "p_aIndex p1 + 6 * (elem_sum records (p_elements p1) (Suc j) l + r) + 4
               = p_aIndex p + 6 * (elem_sum records (p_elements p) j l + r) + 4"
      by (simp add: f(1) same first)
    from Suc.hyps(1)[OF n rest jl(1) Suc.prems(3) el Suc.prems(5)] Suc.prems(6)
    show ?thesis
      unfolding pos by (simp add: f(5))
  qed
qed

lemma pack_loop_index:
  assumes "pack_loop U texs finish j p = Inr p'" "j \<le> l" "l < finish"
    and "js_get (p_elements p) l = Some e" "k < length (indices e)"
    and "p_indexBuffer p = Some b"
    and "p_iIndex p + elem_sum icount (p_elements p) j l + k < length b"
  shows "\<exists>b'. p_indexBuffer p' = Some b' \<and> length b' = length b
           \<and> b' ! (p_iIndex p + elem_sum icount (p_elements p) j l + k)
             = to_uint16 (map_option
                 (\<lambda>q. q + elem_sum vcount (p_elements p) j l + of_nat (indices e ! k))
                 (packedVertices p))"
  using assms
proof (induction "finish - j" arbitrary: j p b)
  case 0
  then show ?case by simp
next
  case (Suc n)
  then have lt: "j < finish"
    by simp
  from pack_loop_step[OF lt Suc.prems(1)] obtain e0 p1 where
    e0: "js_get (p_elements p) j = Some e0"
    and pe: "pack_element U texs j e0 p = Inr p1"
    and rest: "pack_loop U texs finish (Suc j) p1 = Inr p'"
    by blast
  note f = pack_element_facts[OF pe]
  from Suc.hyps(2) lt have n: "n = finish - Suc j" and le: "Suc j \<le> finish"
    by simp_all
  note lf = pack_loop_facts[OF rest le]
  from f(9)[OF Suc.prems(6)] obtain b1 where
    b1: "p_indexBuffer p1 = Some b1" "length b1 = length b"
    and b1at: "\<And>k. k < length (indices e0) \<Longrightarrow> p_iIndex p + k < length b \<Longrightarrow>
                 b1 ! (p_iIndex p + k)
                 = to_uint16 (map_option (\<lambda>q. q + of_nat (indices e0 ! k)) (packedVertices p))"
    by blast
  show ?case
  proof (cases "l = j")
    case True
    with e0 Suc.prems(4) have ee: "e0 = e"
      by simp
    from True have z: "elem_sum icount (p_elements p) j l = 0"
        "elem_sum vcount (p_elements p) j l = 0"
      by simp_all
    from lf[THEN conjunct2, THEN conjunct2, THEN conjunct2, THEN conjunct2, THEN conjunct2,
            THEN conjunct2, THEN conjunct2, THEN conjunct2, THEN conjunct2, rule_format, OF b1(1)]
    obtain b' where b': "p_indexBuffer p' = Some b'" "length b' = length b1"
      "\<And>pos. pos < p_iIndex p1 \<Longrightarrow> b' ! pos = b1 ! pos"
      by blast
    from Suc.prems(5) have "p_iIndex p + k < p_iIndex p1"
      by (simp add: f(2) ee)
    from b'(3)[OF this] b1at[of k] Suc.prems(5,7) b' b1
    show ?thesis
      by (simp add: ee z)
  next
    case False
    with Suc.prems(2) have jl: "Suc j \<le> l" "j < l"
      by simp_all
    have el: "js_get (p_elements p1) l = Some e"
      using Suc.prems(4) False by (simp add: f(4) js_get_js_set)
    have same: "elem_sum g (p_elements p1) (Suc j) l = elem_sum g (p_elements p) (Suc j) l"
      for g :: "Element \<Rightarrow> 'a::comm_monoid_add"
      by (rule elem_sum_cong) (simp add: f(4) js_get_js_set)
    have first: "elem_sum g (p_elements p) j l = g e0 + elem_sum g (p_elements p) (Suc j) l"
      for g :: "Element \<Rightarrow> 'a::comm_monoid_add"
      using elem_sum_first[OF jl(2), of g "p_elements p"] e0 by simp
    have pos: "p_iIndex p1 + elem_sum icount (p_elements p1) (Suc j) l + k
               = p_iIndex p + elem_sum icount (p_elements p) j l + k"
      by (simp add: f(2) same first[of icount] icount_def)
    have val: "map_option (\<lambda>q. q + elem_sum vcount (p_elements p1) (Suc j) l + of_nat (indices e ! k))
                 (packedVertices p1)
             = map_option (\<lambda>q. q + elem_sum vcount (p_elements p) j l + of_nat (indices e ! k))
                 (packedVertices p)"
      by (simp add: f(3) same first[of vcount] vcount_def option.map_comp comp_def add.assoc)
    from Suc.prems(7) have inb: "p_iIndex p1 + elem_sum icount (p_elements p1) (Suc j) l + k < length b1"
      by (simp add: pos b1(2))
    from Suc.hyps(1)[OF n rest jl(1) Suc.prems(3) el Suc.prems(5) b1(1) inb]
    show ?thesis
      unfolding pos val by (simp add: b1(2))
  qed
qed

lemma packInterleavedGeometry_unfold:
  assumes "packInterleavedGeometry U lo hi s = Inr s'"
  obtains ab p' where "attributeBuffer s = Some ab"
    and "pack_loop U (baseTextures s) hi lo
           \<lparr>p_elements = bufferedElements s, p_view = viewableBuffers s ab,
            p_indexBuffer = map_option (uint16Arrays s) (indexBuffer s),
            p_aIndex = aIndex s, p_iIndex = iIndex s,
            packedVertices = js_div (aIndex s) (vertexSize s)\<rparr> = Inr p'"
    and "s' = s\<lparr>bufferedElements := p_elements p',
                viewableBuffers := (viewableBuffers s)(ab := p_view p'),
                uint16Arrays :=
                  (case (indexBuffer s, p_indexBuffer p') of
                     (Some ib, Some b) \<Rightarrow> (uint16Arrays s)(ib := b)
                   | _ \<Rightarrow> uint16Arrays s),
                aIndex := p_aIndex p', iIndex := p_iIndex p'\<rparr>"
  using assms
  by (auto simp: packInterleavedGeometry_def split: option.splits sum.splits)

lemma argb_straight:
  assumes "\<not> (min (worldAlpha e) 1 < 1 \<and> alphaMode tex \<noteq> 0)"
  shows "argb U tex e
         = word_of_int (tintRGB e)
           + push_bit 24 (to_int32 (double_times U (min (worldAlpha e) 1) 255))"
proof -
  have "word_of_int (t + sint w) = word_of_int t + w" for t :: int and w :: "32 word"
    by (simp add: wi_hom_add[symmetric])
  with assms show ?thesis
    by (simp only: argb_def Let_def if_False)
qed

lemma argb_straight_uint:
  assumes "\<not> (min (worldAlpha e) 1 < 1 \<and> alphaMode tex \<noteq> 0)"
    and "0 \<le> tintRGB e" "tintRGB e < 2 ^ 24"
    and "double_times U (min (worldAlpha e) 1) 255 = Some p" "0 \<le> p" "p < 256"
  shows "uint (argb U tex e) = tintRGB e + \<lfloor>p\<rfloor> * 2 ^ 24"
    and "0 \<le> \<lfloor>p\<rfloor>" and "\<lfloor>p\<rfloor> \<le> 255"
proof -
  define a where "a = \<lfloor>p\<rfloor>"
  from assms(5) have a0: "0 \<le> a"
    by (simp add: a_def)
  from assms(6) have "\<lfloor>p\<rfloor> < 256"
    by (simp add: floor_less_iff)
  then have a1: "a \<le> 255"
    by (simp add: a_def)
  have t: "to_int32 (double_times U (min (worldAlpha e) 1) 255) = word_of_int a"
    using assms(5) by (simp add: assms(4) to_int32_def js_trunc_def a_def)
  define x where "x = tintRGB e + a * 2 ^ 24"
  have "argb U tex e = word_of_int x"
    unfolding argb_straight[OF assms(1)] t x_def
    by (simp add: push_bit_eq_mult)
  moreover have "0 \<le> x"
    using a0 assms(2) by (simp add: x_def)
  moreover have "x < 2 ^ 32"
  proof -
    from a1 have "a * 16777216 \<le> 4278190080"
      by simp
    moreover from assms(3) have "tintRGB e < 16777216"
      by simp
    ultimately have "tintRGB e + a * 16777216 < 4294967296"
      by linarith
    then show ?thesis
      by (simp add: x_def)
  qed
  ultimately have "uint (argb U tex e) = x"
    by (simp add: uint_word_of_int_eq take_bit_int_eq_self)
  then show "uint (argb U tex e) = tintRGB e + \<lfloor>p\<rfloor> * 2 ^ 24"
    by (simp only: x_def a_def)
  from a0 a1 show "0 \<le> \<lfloor>p\<rfloor>" "\<lfloor>p\<rfloor> \<le> 255"
    by (simp_all only: a_def)
qed


lemma packInterleavedGeometry_colour:
  assumes "packInterleavedGeometry U lo hi s = Inr s'"
    and "attributeBuffer s = Some ab"
    and "lo \<le> j" "j < hi" "js_get (bufferedElements s) j = Some e" "r < records e"
    and "aIndex s + 6 * (elem_sum records (bufferedElements s) lo j + r) + 4
         < length (viewableBuffers s ab)"
  shows "viewableBuffers s' ab ! (aIndex s + 6 * (elem_sum records (bufferedElements s) lo j + r) + 4)
         = U32 (argb U (baseTextures s (baseTexture (texture e))) e)"
proof -
  from packInterleavedGeometry_unfold[OF assms(1)] obtain ab' p' where
    ab': "attributeBuffer s = Some ab'"
    and loop: "pack_loop U (baseTextures s) hi lo
           \<lparr>p_elements = bufferedElements s, p_view = viewableBuffers s ab',
            p_indexBuffer = map_option (uint16Arrays s) (indexBuffer s),
            p_aIndex = aIndex s, p_iIndex = iIndex s,
            packedVertices = js_div (aIndex s) (vertexSize s)\<rparr> = Inr p'"
    and s'0: "s' = s\<lparr>bufferedElements := p_elements p',
                viewableBuffers := (viewableBuffers s)(ab' := p_view p'),
                uint16Arrays :=
                  (case (indexBuffer s, p_indexBuffer p') of
                     (Some ib, Some b) \<Rightarrow> (uint16Arrays s)(ib := b)
                   | _ \<Rightarrow> uint16Arrays s),
                aIndex := p_aIndex p', iIndex := p_iIndex p'\<rparr>"
    by blast
  from ab' assms(2) have [simp]: "ab' = ab"
    by simp
  have s': "viewableBuffers s' = (viewableBuffers s)(ab := p_view p')"
    by (simp add: s'0)
  from pack_loop_colour[OF loop assms(3,4), of e r] assms(5,6,7) show ?thesis
    by (simp add: s')
qed

lemma packInterleavedGeometry_index:
  assumes "packInterleavedGeometry U lo hi s = Inr s'"
    and "indexBuffer s = Some ib"
    and "lo \<le> j" "j < hi" "js_get (bufferedElements s) j = Some e" "k < length (indices e)"
    and "iIndex s + elem_sum icount (bufferedElements s) lo j + k < length (uint16Arrays s ib)"
  shows "uint16Arrays s' ib ! (iIndex s + elem_sum icount (bufferedElements s) lo j + k)
         = to_uint16 (map_option
             (\<lambda>q. q + elem_sum vcount (bufferedElements s) lo j + of_nat (indices e ! k))
             (js_div (aIndex s) (vertexSize s)))"
proof -
  from packInterleavedGeometry_unfold[OF assms(1)] obtain ab' p' where
    ab': "attributeBuffer s = Some ab'"
    and loop: "pack_loop U (baseTextures s) hi lo
           \<lparr>p_elements = bufferedElements s, p_view = viewableBuffers s ab',
            p_indexBuffer = map_option (uint16Arrays s) (indexBuffer s),
            p_aIndex = aIndex s, p_iIndex = iIndex s,
            packedVertices = js_div (aIndex s) (vertexSize s)\<rparr> = Inr p'"
    and s'0: "s' = s\<lparr>bufferedElements := p_elements p',
                viewableBuffers := (viewableBuffers s)(ab' := p_view p'),
                uint16Arrays :=
                  (case (indexBuffer s, p_indexBuffer p') of
                     (Some ib, Some b) \<Rightarrow> (uint16Arrays s)(ib := b)
                   | _ \<Rightarrow> uint16Arrays s),
                aIndex := p_aIndex p', iIndex := p_iIndex p'\<rparr>"
    by blast
  have s': "uint16Arrays s' =
                  (case (indexBuffer s, p_indexBuffer p') of
                     (Some ib, Some b) \<Rightarrow> (uint16Arrays s)(ib := b)
                   | _ \<Rightarrow> uint16Arrays s)"
    by (simp add: s'0)
  from pack_loop_index[OF loop assms(3,4), of e k "uint16Arrays s ib"] assms(2,5,6,7)
  obtain b' where "p_indexBuffer p' = Some b'"
    and "b' ! (iIndex s + elem_sum icount (bufferedElements s) lo j + k)
         = to_uint16 (map_option
             (\<lambda>q. q + elem_sum vcount (bufferedElements s) lo j + of_nat (indices e ! k))
             (js_div (aIndex s) (vertexSize s)))"
    by auto
  with assms(2) show ?thesis
    by (simp add: s')
qed

text \<open>The vertex count of an element with an even number of coordinates.\<close>

definition vertices :: "Element \<Rightarrow> nat" where
  "vertices e = length (vertexData e) div 2"

definition even_coordinates :: "Element option list \<Rightarrow> nat \<Rightarrow> nat \<Rightarrow> bool" where
  "even_coordinates es lo hi =
     list_all (\<lambda>l. case js_get es l of None \<Rightarrow> True | Some e \<Rightarrow> even (length (vertexData e)))
       [lo..<hi]"

lemma elem_sum_vcount_vertices:
  assumes "even_coordinates es lo hi" "lo \<le> j" "j \<le> hi"
  shows "elem_sum vcount es lo j = of_nat (elem_sum vertices es lo j)"
  using assms(2,3)
proof (induction j)
  case 0
  then show ?case by simp
next
  case (Suc j)
  show ?case
  proof (cases "lo \<le> j")
    case False
    with Suc.prems have "Suc j \<le> lo" by simp
    then show ?thesis by simp
  next
    case True
    from assms(1) True Suc.prems(2)
    have ev: "case js_get es j of None \<Rightarrow> True | Some e \<Rightarrow> even (length (vertexData e))"
      by (simp add: even_coordinates_def list_all_iff)
    have "(case js_get es j of None \<Rightarrow> 0 | Some e \<Rightarrow> vcount e)
          = (of_nat (case js_get es j of None \<Rightarrow> 0 | Some e \<Rightarrow> vertices e) :: rat)"
      using ev by (auto simp: vcount_def vertices_def split: option.splits elim!: evenE)
    with Suc.IH[OF True] Suc.prems(2) True show ?thesis
      by (simp add: elem_sum_last)
  qed
qed

lemma elem_sum_mono:
  assumes "lo \<le> j1" "j1 < j2" "js_get es j1 = Some e"
  shows "elem_sum g es lo j1 + g e \<le> (elem_sum g es lo j2 :: nat)"
proof -
  have "elem_sum g es lo j2 = elem_sum g es lo j1 + elem_sum g es j1 j2"
    using assms(1,2) by (intro elem_sum_split) simp_all
  also have "elem_sum g es j1 j2 = g e + elem_sum g es (Suc j1) j2"
    using elem_sum_first[OF assms(2), of g es] assms(3) by simp
  finally show ?thesis
    by simp
qed

lemma js_div_dvd: "0 < v \<Longrightarrow> v dvd a \<Longrightarrow> js_div a v = Some (of_nat (a div v))"
  by (auto simp: js_div_def)

lemma to_uint16_nat: "n < 65536 \<Longrightarrow> to_uint16 (Some (of_nat n)) = n"
  by (simp add: to_uint16_def js_trunc_def nat_mod_distrib)

subsection \<open>Lemmas on the cursors during a flush\<close>




text \<open>
  \<open>advance s lo s' hi\<close>: from \<open>s\<close> to \<open>s'\<close> the cursors moved by no more than the elements
  \<open>lo\<close> to \<open>hi - 1\<close> need, the elements from \<open>hi\<close> on are untouched, and the scratch
  buffers are the same objects with the same lengths.
\<close>

definition advance :: "state \<Rightarrow> nat \<Rightarrow> state \<Rightarrow> nat \<Rightarrow> bool" where
  "advance s lo s' hi =
     (lo \<le> hi
      \<and> aIndex s' \<le> aIndex s + 6 * elem_sum records (bufferedElements s) lo hi
      \<and> iIndex s' \<le> iIndex s + elem_sum icount (bufferedElements s) lo hi
      \<and> (\<forall>l. hi \<le> l \<longrightarrow> js_get (bufferedElements s') l = js_get (bufferedElements s) l)
      \<and> (\<forall>a. length (viewableBuffers s' a) = length (viewableBuffers s a))
      \<and> (\<forall>a. length (uint16Arrays s' a) = length (uint16Arrays s a))
      \<and> attributeBuffer s' = attributeBuffer s \<and> indexBuffer s' = indexBuffer s
      \<and> bufferSize s' = bufferSize s)"








lemma advance_le: "advance s lo s' hi \<Longrightarrow> lo \<le> hi"
  by (simp add: advance_def)

























section \<open>The claims\<close>

text \<open>
  C6. \<^verbatim>\<open>render\<close> of an element whose texture is not valid returns at once: the state
  is the one before the call, so nothing is appended, no count changes and no flush
  runs.
\<close>

theorem render_invalid_texture_noop:
  "\<not> valid (texture element) \<Longrightarrow> render U element s = Inr s"
  by (simp add: render_def)

theorem render_invalid_texture_noop_witness:
  "\<not> valid (texture ((quad 0 0)\<lparr>texture := \<lparr>valid = False, baseTexture = 0\<rparr>\<rparr>))
   \<and> render env0 ((quad 0 0)\<lparr>texture := \<lparr>valid = False, baseTexture = 0\<rparr>\<rparr>) init0 = Inr init0"
  using render_invalid_texture_noop
    [of "(quad 0 0)\<lparr>texture := \<lparr>valid = False, baseTexture = 0\<rparr>\<rparr>" env0 init0]
  by simp

text \<open>
  C7. \<^verbatim>\<open>render\<close> of an element with a valid texture. Either the element fits
  (\<^verbatim>\<open>_vertexCount\<close> plus its vertex count is at most \<^verbatim>\<open>size\<close>, equality included) and no
  flush runs (\<open>s1 = s\<close>), or it does not fit and \<open>s1\<close> is what \<^verbatim>\<open>flush\<close> returns. Then
  the element and its base texture are stored at position \<^verbatim>\<open>_bufferSize\<close> of the two
  parallel arrays, the buffered-element count grows by one, the vertex and index
  totals grow by the element's counts, and nothing else of \<open>s1\<close> changes.
\<close>

theorem render_buffers_element:
  assumes "valid (texture element)"
    and "s1 = s \<and> vertexCount s + of_nat (length (vertexData element)) / 2 \<le> of_nat (size_r s)
         \<or> flush U s = Inr s1
           \<and> vertexCount s + of_nat (length (vertexData element)) / 2 > of_nat (size_r s)"
  shows "\<exists>s'. render U element s = Inr s'
           \<and> bufferSize s' = bufferSize s1 + 1
           \<and> vertexCount s' = vertexCount s1 + of_nat (length (vertexData element)) / 2
           \<and> indexCount s' = indexCount s1 + length (indices element)
           \<and> bufferedElements s' = js_set (bufferedElements s1) (bufferSize s1) (Some element)
           \<and> bufferedTextures s' =
               js_set (bufferedTextures s1) (bufferSize s1) (Some (baseTexture (texture element)))
           \<and> s'\<lparr>vertexCount := vertexCount s1, indexCount := indexCount s1,
                 bufferedTextures := bufferedTextures s1,
                 bufferedElements := bufferedElements s1, bufferSize := bufferSize s1\<rparr> = s1"
  using assms by (auto simp: render_def)

theorem render_buffers_element_witness:
  "valid (texture (quad 0 0))
   \<and> (after (replicate 3 (render env0 (quad 0 0))) init0 = after (replicate 3 (render env0 (quad 0 0))) init0
      \<and> vertexCount (after (replicate 3 (render env0 (quad 0 0))) init0)
          + of_nat (length (vertexData (quad 0 0))) / 2
        \<le> of_nat (size_r (after (replicate 3 (render env0 (quad 0 0))) init0)))
   \<and> (\<exists>s'. render env0 (quad 0 0) (after (replicate 3 (render env0 (quad 0 0))) init0) = Inr s'
          \<and> bufferSize s' = 4 \<and> vertexCount s' = 16 \<and> indexCount s' = 24 \<and> gl s' = [])"
proof -
  let ?s = "after (replicate 3 (render env0 (quad 0 0))) init0"
  have h1: "valid (texture (quad 0 0))"
    by (simp add: quad_def)
  have h2: "vertexCount ?s + of_nat (length (vertexData (quad 0 0))) / 2 \<le> of_nat (size_r ?s)"
    by code_simp
  have v: "bufferSize ?s = 3" "vertexCount ?s = 12" "indexCount ?s = 18" "gl ?s = []"
    by code_simp+
  from render_buffers_element[OF h1, of ?s ?s env0] h2
  obtain s' where r: "render env0 (quad 0 0) ?s = Inr s'"
    and f: "bufferSize s' = bufferSize ?s + 1"
      "vertexCount s' = vertexCount ?s + of_nat (length (vertexData (quad 0 0))) / 2"
      "indexCount s' = indexCount ?s + length (indices (quad 0 0))"
    and fr: "s'\<lparr>vertexCount := vertexCount ?s, indexCount := indexCount ?s,
                 bufferedTextures := bufferedTextures ?s,
                 bufferedElements := bufferedElements ?s, bufferSize := bufferSize ?s\<rparr> = ?s"
    by blast
  have "gl s' = gl ?s"
    using arg_cong[OF fr, of gl] by simp
  with r f v h1 h2 show ?thesis
    by (simp add: quad_def)
qed

text \<open>
  C8. As the claim states it, \<^verbatim>\<open>flush\<close> with no buffered vertex leaves the three cursors
  at zero. It leaves them as they are: after one quad has been rendered and flushed,
  the vertex count is 0 and a second \<^verbatim>\<open>flush\<close> returns with the cursors of the first
  (one draw call, 24 attribute lanes, 6 indices).
\<close>

theorem flush_empty_cursors_counterexample:
  "vertexCount (after [render env0 (quad 0 0), flush env0] init0) = 0
   \<and> (case flush env0 (after [render env0 (quad 0 0), flush env0] init0) of
        Inl e \<Rightarrow> False
      | Inr s' \<Rightarrow> dcIndex s' = 1 \<and> aIndex s' = 24 \<and> iIndex s' = 6)"
  by code_simp

text \<open>
  C8, amended. \<^verbatim>\<open>flush\<close> with no buffered vertex returns the state it was given: no
  call on the graphics context is added, no buffer is looked up or created, and the
  three cursors keep their values (zero if they were zero).
\<close>

theorem flush_empty_noop:
  "vertexCount s = 0 \<Longrightarrow> flush U s = Inr s"
  by (simp add: flush_def)

theorem flush_empty_noop_witness:
  "vertexCount (after [render env0 (quad 0 0), flush env0] init0) = 0
   \<and> flush env0 (after [render env0 (quad 0 0), flush env0] init0)
       = Inr (after [render env0 (quad 0 0), flush env0] init0)"
proof -
  have h: "vertexCount (after [render env0 (quad 0 0), flush env0] init0) = 0"
    by code_simp
  from flush_empty_noop[OF h, of env0] h show ?thesis
    by simp
qed

text \<open>
  C1. Two quads with one base texture and the blend modes 0 and 1 are two runs (their
  effective blend modes differ), and \<^verbatim>\<open>buildDrawCalls\<close> emits one draw call for both:
  the test \<^verbatim>\<open>start > i\<close> of line 430 never holds, so a draw call is never closed
  inside the loop. The one draw call covers the 12 indices of both quads and is drawn
  with the blend mode of the second.
\<close>

theorem buildDrawCalls_merges_blend_runs:
  "premultiplyBlendMode env0 1 (blendMode (quad 0 0))
     \<noteq> premultiplyBlendMode env0 1 (blendMode (quad 1 0))
   \<and> (case run [render env0 (quad 0 0), render env0 (quad 1 0), flush env0] init0 of
        Inl e \<Rightarrow> False
      | Inr s \<Rightarrow>
          dcIndex s = 1
          \<and> take 1 (drawCalls s) = [\<lparr>texArray = Some 0, blend = 1, start = 0, size_dc = 12\<rparr>]
          \<and> gl s = [GeometryBufferUpdate 0 0 (Some 1), UpdateBuffers, TextureBind (Some 0),
                    SetBlendMode 1, DrawElements 12 0])"
  by code_simp

text \<open>
  C2. The frame of two quads with two base textures, on one texture unit, twice. The
  first flush draws both quads. In the second, the draw call of the second group is
  the pooled one that the first flush left with \<^verbatim>\<open>start = 6\<close>; the test
  \<^verbatim>\<open>drawCall.start < finish\<close> of line 444 compares this index offset with the element
  position 2 and fails, so the second quad is neither packed nor drawn: 6 of the 12
  submitted indices are packed, one draw call is issued, and the quad stays in the
  buffer.
\<close>

theorem flush_drops_second_group:
  "bufferSize (after (frame @ two_textures) init0) = 2
   \<and> indexCount (after (frame @ two_textures) init0) = 12
   \<and> (case flush env0 (after (frame @ two_textures) init0) of
        Inl e \<Rightarrow> False
      | Inr s \<Rightarrow>
          iIndex s = 6 \<and> dcIndex s = 1
          \<and> bufferedElements s = [None, Some (quad 0 1)]
          \<and> drop (length (gl (after (frame @ two_textures) init0))) (gl s)
              = [GeometryBufferUpdate 0 0 (Some 1), UpdateBuffers, TextureBind (Some 0),
                 SetBlendMode 0, DrawElements 6 0])"
  by code_simp

text \<open>
  C3. The same frame three times, with \<^verbatim>\<open>MAX_TEXTURES = 1\<close>. The second flush does not
  draw its second group (see C2), so \<^verbatim>\<open>drawBatches\<close> does not reset the texture array
  of that group; the third flush appends base texture 1 to it again: a texture array
  of two entries, both the same texture.
\<close>

theorem texture_array_overfull_third_flush:
  "MAX_TEXTURES (after (frame @ frame @ two_textures) init0) = 1
   \<and> (case buildTexturesAndDrawCalls env0
              ((after (frame @ frame @ two_textures) init0)
                 \<lparr>aIndex := 0, iIndex := 0, dcIndex := 0\<rparr>) of
        Inl e \<Rightarrow> False
      | Inr s \<Rightarrow> textureArrays s ! 1 = \<lparr>elements = [Some 1, Some 1], count = 2\<rparr>)
   \<and> (case run (frame @ frame @ frame) init0 of
        Inl e \<Rightarrow> False
      | Inr s \<Rightarrow> textureArrays s ! 1 = \<lparr>elements = [Some 1, Some 1], count = 2\<rparr>)"
  by code_simp

text \<open>
  C9. Two calls of \<^verbatim>\<open>getAttributeBuffer\<close> with one capacity \<open>c\<close>, one after the other, return
  the same object, and the second changes nothing (it allocates nothing). The object is
  cached under the size class \<open>k = nextPow2 (ceil (c / 8)) * 8\<close>. On a miss the first call
  creates it, with \<open>k\<close> vertex records (\<open>k * vertexSize\<close> lanes), at a new address; on a
  hit it returns the cached object and creates nothing. The same holds for
  \<^verbatim>\<open>getIndexBuffer\<close>, whose size class is \<open>nextPow2 (ceil (n / 12)) * 12\<close> indices, cached
  under \<open>log2\<close> of the power of two.
\<close>

theorem buffer_pool_returns_cached_object:
  assumes "0 \<le> c"
  shows
    "(let r1 = getAttributeBuffer U c s;
          r2 = getAttributeBuffer U c (snd r1);
          k = nextPow2 U (nat \<lceil>c / 8\<rceil>) * 8
      in fst r2 = fst r1 \<and> snd r2 = snd r1
         \<and> aBuffers (snd r1) k = Some (fst r1)
         \<and> (case aBuffers s k of
               None \<Rightarrow>
                 fst r1 = allocated s \<and> allocated (snd r1) = allocated s + 1
                 \<and> viewableBuffers (snd r1) (fst r1) = replicate (k * vertexSize s) (U32 0)
             | Some b \<Rightarrow>
                 fst r1 = b \<and> allocated (snd r1) = allocated s
                 \<and> aBuffers (snd r1) = aBuffers s
                 \<and> viewableBuffers (snd r1) = viewableBuffers s))
     \<and> (let r1 = getIndexBuffer U n s;
            r2 = getIndexBuffer U n (snd r1);
            p = nextPow2 U (nat \<lceil>(of_nat n :: rat) / 12\<rceil>)
        in fst r2 = fst r1 \<and> snd r2 = snd r1
           \<and> iBuffers (snd r1) (log2 U p) = Some (fst r1)
           \<and> (case iBuffers s (log2 U p) of
                 None \<Rightarrow>
                   fst r1 = allocated s \<and> allocated (snd r1) = allocated s + 1
                   \<and> uint16Arrays (snd r1) (fst r1) = replicate (p * 12) 0
               | Some b \<Rightarrow>
                   fst r1 = b \<and> allocated (snd r1) = allocated s
                   \<and> iBuffers (snd r1) = iBuffers s
                   \<and> uint16Arrays (snd r1) = uint16Arrays s))"
proof -
  define k where "k = nextPow2 U (nat \<lceil>c / 8\<rceil>) * 8"
  define p where "p = nextPow2 U (nat \<lceil>(of_nat n :: rat) / 12\<rceil>)"
  have a: "aBuffers (snd (getAttributeBuffer U c s)) k = Some (fst (getAttributeBuffer U c s))
     \<and> (case aBuffers s k of
           None \<Rightarrow>
             fst (getAttributeBuffer U c s) = allocated s
             \<and> allocated (snd (getAttributeBuffer U c s)) = allocated s + 1
             \<and> viewableBuffers (snd (getAttributeBuffer U c s)) (fst (getAttributeBuffer U c s))
                 = replicate (k * vertexSize s) (U32 0)
         | Some b \<Rightarrow>
             fst (getAttributeBuffer U c s) = b
             \<and> allocated (snd (getAttributeBuffer U c s)) = allocated s
             \<and> aBuffers (snd (getAttributeBuffer U c s)) = aBuffers s
             \<and> viewableBuffers (snd (getAttributeBuffer U c s)) = viewableBuffers s)"
  proof (cases "aBuffers s k")
    case None
    then show ?thesis
      using getAttributeBuffer_miss[of s U c] by (simp add: k_def a_length_set_fields)
  next
    case (Some b)
    then show ?thesis
      using getAttributeBuffer_hit[of s U c b] by (simp add: k_def a_length_set_fields)
  qed
  have i: "iBuffers (snd (getIndexBuffer U n s)) (log2 U p) = Some (fst (getIndexBuffer U n s))
     \<and> (case iBuffers s (log2 U p) of
           None \<Rightarrow>
             fst (getIndexBuffer U n s) = allocated s
             \<and> allocated (snd (getIndexBuffer U n s)) = allocated s + 1
             \<and> uint16Arrays (snd (getIndexBuffer U n s)) (fst (getIndexBuffer U n s))
                 = replicate (p * 12) 0
         | Some b \<Rightarrow>
             fst (getIndexBuffer U n s) = b
             \<and> allocated (snd (getIndexBuffer U n s)) = allocated s
             \<and> iBuffers (snd (getIndexBuffer U n s)) = iBuffers s
             \<and> uint16Arrays (snd (getIndexBuffer U n s)) = uint16Arrays s)"
  proof (cases "iBuffers s (log2 U p)")
    case None
    then show ?thesis
      using getIndexBuffer_miss[of s U n] by (simp add: p_def i_length_set_fields)
  next
    case (Some b)
    then show ?thesis
      using getIndexBuffer_hit[of s U n b] by (simp add: p_def i_length_set_fields)
  qed
  from a i show ?thesis
    unfolding Let_def k_def p_def getAttributeBuffer_twice getIndexBuffer_twice
    by blast
qed

theorem buffer_pool_returns_cached_object_witness:
  "(0::rat) \<le> 8
   \<and> fst (getAttributeBuffer env0 8 (snd (getAttributeBuffer env0 8 init0)))
       = fst (getAttributeBuffer env0 8 init0)
   \<and> fst (getAttributeBuffer env0 8 init0) = 0
   \<and> viewableBuffers (snd (getAttributeBuffer env0 8 init0)) (fst (getAttributeBuffer env0 8 init0))
       = replicate 48 (U32 0)
   \<and> allocated (snd (getAttributeBuffer env0 8 (snd (getAttributeBuffer env0 8 init0)))) = 1
   \<and> fst (getIndexBuffer env0 12 (snd (getIndexBuffer env0 12 init0)))
       = fst (getIndexBuffer env0 12 init0)
   \<and> uint16Arrays (snd (getIndexBuffer env0 12 init0)) (fst (getIndexBuffer env0 12 init0))
       = replicate 12 0"
proof -
  have h: "(0::rat) \<le> 8"
    by simp
  have m: "aBuffers init0 (nextPow2 env0 (nat \<lceil>(8::rat) / 8\<rceil>) * 8) = None"
          "iBuffers init0 (log2 env0 (nextPow2 env0 (nat \<lceil>(of_nat 12 :: rat) / 12\<rceil>))) = None"
          "allocated init0 = 0" "vertexSize init0 = 6"
          "nextPow2 env0 (nat \<lceil>(8::rat) / 8\<rceil>) * 8 = 8"
          "nextPow2 env0 (nat \<lceil>(of_nat 12 :: rat) / 12\<rceil>) * 12 = 12"
    by code_simp+
  from buffer_pool_returns_cached_object[OF h, of env0 init0 12] m h show ?thesis
    by (auto simp: Let_def)
qed

text \<open>
  C5. After \<^verbatim>\<open>packInterleavedGeometry\<close> over the elements \<open>lo\<close> to \<open>hi - 1\<close>, the colour lane
  (lane 4) of record \<open>r\<close> of element \<open>j\<close> holds the colour \<open>c\<close> of line 702, for
  \<open>alpha = min worldAlpha 1\<close>: \<^verbatim>\<open>premultiplyTint (_tintRGB, alpha)\<close> when \<open>alpha < 1\<close> and the
  texture's \<^verbatim>\<open>alphaMode\<close> is set, and otherwise the tint plus the double product
  \<^verbatim>\<open>alpha * 255\<close>, taken to a 32-bit integer and shifted to the top byte. In that second
  case, when the product is a number \<open>p\<close> from 0 up to 256 and the tint has 24 bits, the
  lane is the number \<open>tint + floor p * 2^24\<close>: the tint's three bytes unchanged under the
  alpha byte \<open>floor p\<close>.
\<close>

theorem packed_colour_lane:
  assumes "packInterleavedGeometry U lo hi s = Inr s'"
    and "attributeBuffer s = Some ab"
    and "lo \<le> j" "j < hi" "js_get (bufferedElements s) j = Some e" "r < records e"
    and "aIndex s + 6 * (elem_sum records (bufferedElements s) lo j + r) + 4
         < length (viewableBuffers s ab)"
  shows
    "(let tex = baseTextures s (baseTexture (texture e));
          alpha = min (worldAlpha e) 1;
          c = (if alpha < 1 \<and> alphaMode tex \<noteq> 0
               then word_of_int (premultiplyTint U (tintRGB e) alpha)
               else word_of_int (tintRGB e) + push_bit 24 (to_int32 (double_times U alpha 255)))
      in viewableBuffers s' ab ! (aIndex s + 6 * (elem_sum records (bufferedElements s) lo j + r) + 4)
           = U32 c
         \<and> (\<forall>p. \<not> (alpha < 1 \<and> alphaMode tex \<noteq> 0)
                \<and> double_times U alpha 255 = Some p \<and> 0 \<le> p \<and> p < 256
                \<and> 0 \<le> tintRGB e \<and> tintRGB e < 2 ^ 24
              \<longrightarrow> uint c = tintRGB e + \<lfloor>p\<rfloor> * 2 ^ 24 \<and> 0 \<le> \<lfloor>p\<rfloor> \<and> \<lfloor>p\<rfloor> \<le> 255))"
proof -
  let ?tex = "baseTextures s (baseTexture (texture e))"
  let ?alpha = "min (worldAlpha e) 1"
  have c: "argb U ?tex e =
           (if ?alpha < 1 \<and> alphaMode ?tex \<noteq> 0
            then word_of_int (premultiplyTint U (tintRGB e) ?alpha)
            else word_of_int (tintRGB e) + push_bit 24 (to_int32 (double_times U ?alpha 255)))"
  proof (cases "?alpha < 1 \<and> alphaMode ?tex \<noteq> 0")
    case True
    then show ?thesis
      by (simp add: argb_def Let_def)
  next
    case False
    from argb_straight[OF False, of U] False show ?thesis
      by (simp only: if_False)
  qed
  have u: "uint (argb U ?tex e) = tintRGB e + \<lfloor>p\<rfloor> * 2 ^ 24 \<and> 0 \<le> \<lfloor>p\<rfloor> \<and> \<lfloor>p\<rfloor> \<le> 255"
    if "\<not> (?alpha < 1 \<and> alphaMode ?tex \<noteq> 0)" "0 \<le> tintRGB e" "tintRGB e < 2 ^ 24"
       "double_times U ?alpha 255 = Some p" "0 \<le> p" "p < 256" for p
    using argb_straight_uint[OF that] by blast
  note lane = packInterleavedGeometry_colour[OF assms]
  show ?thesis
    unfolding Let_def c[symmetric]
  proof (intro conjI allI impI)
    show "viewableBuffers s' ab ! (aIndex s + 6 * (elem_sum records (bufferedElements s) lo j + r) + 4)
          = U32 (argb U ?tex e)"
      by (rule lane)
  next
    fix p
    assume a: "\<not> (?alpha < 1 \<and> alphaMode ?tex \<noteq> 0)
               \<and> double_times U ?alpha 255 = Some p \<and> 0 \<le> p \<and> p < 256
               \<and> 0 \<le> tintRGB e \<and> tintRGB e < 2 ^ 24"
    then have "\<not> (?alpha < 1 \<and> alphaMode ?tex \<noteq> 0)" "0 \<le> tintRGB e" "tintRGB e < 2 ^ 24"
       "double_times U ?alpha 255 = Some p" "0 \<le> p" "p < 256"
      by blast+
    from u[OF this]
    show "uint (argb U ?tex e) = tintRGB e + \<lfloor>p\<rfloor> * 2 ^ 24"
      and "0 \<le> \<lfloor>p\<rfloor>" and "\<lfloor>p\<rfloor> \<le> 255"
      by blast+
  qed
qed

text \<open>
  Two samples: a quad of opacity \<open>1/2\<close> on a premultiplied texture, and a quad whose
  opacity is the double nearest to \<open>0.6\<close> on a texture that is not premultiplied. The
  double product of the latter with 255 is 153, so that the lane holds \<^verbatim>\<open>0x99FFFFFF\<close>.
\<close>

theorem packed_colour_lane_witness:
  "packInterleavedGeometry env0 0 1
      (begin_flush env0 (after [render env0 ((quad 0 0)\<lparr>worldAlpha := 1 / 2\<rparr>)] init0))
     = Inr (after [packInterleavedGeometry env0 0 1]
              (begin_flush env0 (after [render env0 ((quad 0 0)\<lparr>worldAlpha := 1 / 2\<rparr>)] init0)))
   \<and> viewableBuffers
        (after [packInterleavedGeometry env0 0 1]
           (begin_flush env0 (after [render env0 ((quad 0 0)\<lparr>worldAlpha := 1 / 2\<rparr>)] init0)))
        0 ! 4
       = U32 (word_of_int (sample_premultiplyTint 16777215 (1 / 2)))
   \<and> packInterleavedGeometry env0 0 1
        (begin_flush env0
           (after [render env0
                     ((quad 0 0)\<lparr>worldAlpha := 5404319552844595 / 9007199254740992\<rparr>)]
              init_straight))
     = Inr (after [packInterleavedGeometry env0 0 1]
              (begin_flush env0
                 (after [render env0
                           ((quad 0 0)\<lparr>worldAlpha := 5404319552844595 / 9007199254740992\<rparr>)]
                    init_straight)))
   \<and> viewableBuffers
        (after [packInterleavedGeometry env0 0 1]
           (begin_flush env0
              (after [render env0
                        ((quad 0 0)\<lparr>worldAlpha := 5404319552844595 / 9007199254740992\<rparr>)]
                 init_straight)))
        0 ! 4
       = U32 (word_of_int (16777215 + 153 * 2 ^ 24))"
proof -
  define e0 where "e0 = (quad 0 0)\<lparr>worldAlpha := 1 / 2\<rparr>"
  define e1 where "e1 = (quad 0 0)\<lparr>worldAlpha := 5404319552844595 / 9007199254740992\<rparr>"
  define s0 where "s0 = begin_flush env0 (after [render env0 e0] init0)"
  define s1 where "s1 = after [packInterleavedGeometry env0 0 1] s0"
  define t0 where "t0 = begin_flush env0 (after [render env0 e1] init_straight)"
  define t1 where "t1 = after [packInterleavedGeometry env0 0 1] t0"
  have isr: "case run [packInterleavedGeometry env0 0 1] s0 of Inl e \<Rightarrow> False | Inr s' \<Rightarrow> True"
    unfolding s0_def e0_def by code_simp
  have ist: "case run [packInterleavedGeometry env0 0 1] t0 of Inl e \<Rightarrow> False | Inr s' \<Rightarrow> True"
    unfolding t0_def e1_def by code_simp
  have hs: "packInterleavedGeometry env0 0 1 s0 = Inr s1"
    unfolding s1_def by (rule run_single[OF run_after[OF isr]])
  have ht: "packInterleavedGeometry env0 0 1 t0 = Inr t1"
    unfolding t1_def by (rule run_single[OF run_after[OF ist]])
  have as: "attributeBuffer s0 = Some 0" and at: "attributeBuffer t0 = Some 0"
    unfolding s0_def t0_def e0_def e1_def by code_simp+
  have es: "js_get (bufferedElements s0) 0 = Some e0"
    unfolding s0_def e0_def by code_simp
  have et: "js_get (bufferedElements t0) 0 = Some e1"
    unfolding t0_def e1_def by code_simp
  have r: "0 < records e0" "0 < records e1"
    unfolding e0_def e1_def by code_simp+
  have vs: "aIndex s0 = 0" "elem_sum records (bufferedElements s0) 0 0 = 0"
    "length (viewableBuffers s0 0) = 48" "alphaMode (baseTextures s0 0) = 1"
    unfolding s0_def e0_def by code_simp+
  have vt: "aIndex t0 = 0" "elem_sum records (bufferedElements t0) 0 0 = 0"
    "length (viewableBuffers t0 0) = 48" "alphaMode (baseTextures t0 0) = 0"
    unfolding t0_def e1_def by code_simp+
  have p: "sample_double_times (5404319552844595 / 9007199254740992) 255 = Some 153"
    by code_simp
  have bs: "aIndex s0 + 6 * (elem_sum records (bufferedElements s0) 0 0 + 0) + 4
            < length (viewableBuffers s0 0)"
    unfolding vs by simp
  have bt: "aIndex t0 + 6 * (elem_sum records (bufferedElements t0) 0 0 + 0) + 4
            < length (viewableBuffers t0 0)"
    unfolding vt by simp
  from packed_colour_lane[OF hs as _ _ es r(1) bs]
  have cs: "viewableBuffers s1 0 ! 4 = U32 (word_of_int (sample_premultiplyTint 16777215 (1 / 2)))"
    unfolding vs by (simp add: Let_def vs quad_def env0_def e0_def)
  define c where
    "c = word_of_int (tintRGB e1)
         + push_bit 24 (to_int32 (double_times env0 (min (worldAlpha e1) 1) 255))"
  have k: "tintRGB e1 = 16777215" "min (worldAlpha e1) 1 = 5404319552844595 / 9007199254740992"
    "baseTexture (texture e1) = 0" "double_times env0 = sample_double_times"
    by (simp_all add: e1_def quad_def env0_def)
  from packed_colour_lane[OF ht at _ _ et r(2) bt]
  have ct: "viewableBuffers t1 0 ! 4 = U32 c"
    and ci: "\<forall>p. double_times env0 (min (worldAlpha e1) 1) 255 = Some p \<and> 0 \<le> p \<and> p < 256
                \<and> 0 \<le> tintRGB e1 \<and> tintRGB e1 < 2 ^ 24
             \<longrightarrow> uint c = tintRGB e1 + \<lfloor>p\<rfloor> * 2 ^ 24"
    unfolding vt Let_def c_def by (simp_all add: vt k)
  have "uint c = 16777215 + 153 * 2 ^ 24"
    using ci[rule_format, of 153] by (simp add: k p)
  then have "word_of_int (uint c) = (word_of_int (16777215 + 153 * 2 ^ 24) :: 32 word)"
    by (simp only:)
  then have "c = word_of_int (16777215 + 153 * 2 ^ 24)"
    by (simp only: word_of_int_uint)
  with ct have ct': "viewableBuffers t1 0 ! 4 = U32 (word_of_int (16777215 + 153 * 2 ^ 24))"
    by (simp only:)
  from hs cs ht ct' show ?thesis
    unfolding s1_def s0_def t1_def t0_def e0_def e1_def by blast
qed

text \<open>
  C4. \<^verbatim>\<open>packInterleavedGeometry\<close> over the elements \<open>lo\<close> to \<open>hi - 1\<close>, for two of them,
  \<open>j1\<close> before \<open>j2\<close>. Index \<open>k\<close> of an element is written at the index cursor plus the
  number of indices of the elements before it, and the value written is the original
  index plus \<^verbatim>\<open>packedVertices\<close>: the attribute cursor at entry divided by \<^verbatim>\<open>vertexSize\<close>,
  plus half the coordinates of the elements before it, as a \<^verbatim>\<open>Uint16Array\<close> stores it.
  When the cursor is a multiple of a positive \<^verbatim>\<open>vertexSize\<close>, the elements have whole
  vertices, the index of the first element is one of its vertices and the values fit
  16 bits, the two values are \<open>base + before + index\<close> and lie in disjoint ranges: the
  first below \<open>base + before1 + vertices e1\<close>, the second at or above it.
\<close>

theorem packed_indices_offset:
  assumes "packInterleavedGeometry U lo hi s = Inr s'"
    and "indexBuffer s = Some ib"
    and "lo \<le> j1" "j1 < j2" "j2 < hi"
    and "js_get (bufferedElements s) j1 = Some e1" "js_get (bufferedElements s) j2 = Some e2"
    and "k1 < length (indices e1)" "k2 < length (indices e2)"
    and "iIndex s + elem_sum icount (bufferedElements s) lo j2 + k2 < length (uint16Arrays s ib)"
  shows
    "(let es = bufferedElements s;
          written1 = uint16Arrays s' ib ! (iIndex s + elem_sum icount es lo j1 + k1);
          written2 = uint16Arrays s' ib ! (iIndex s + elem_sum icount es lo j2 + k2);
          base = aIndex s div vertexSize s
      in written1 = to_uint16 (map_option (\<lambda>q. q + elem_sum vcount es lo j1 + of_nat (indices e1 ! k1))
                      (js_div (aIndex s) (vertexSize s)))
         \<and> written2 = to_uint16 (map_option (\<lambda>q. q + elem_sum vcount es lo j2 + of_nat (indices e2 ! k2))
                      (js_div (aIndex s) (vertexSize s)))
         \<and> (0 < vertexSize s \<and> vertexSize s dvd aIndex s \<and> even_coordinates es lo hi
              \<and> indices e1 ! k1 < vertices e1
              \<and> base + elem_sum vertices es lo j2 + indices e2 ! k2 < 65536
            \<longrightarrow> written1 = base + elem_sum vertices es lo j1 + indices e1 ! k1
                \<and> written2 = base + elem_sum vertices es lo j2 + indices e2 ! k2
                \<and> written1 < base + elem_sum vertices es lo j1 + vertices e1
                \<and> base + elem_sum vertices es lo j1 + vertices e1 \<le> written2))"
proof -
  let ?es = "bufferedElements s"
  let ?b = "aIndex s div vertexSize s"
  let ?w1 = "uint16Arrays s' ib ! (iIndex s + elem_sum icount ?es lo j1 + k1)"
  let ?w2 = "uint16Arrays s' ib ! (iIndex s + elem_sum icount ?es lo j2 + k2)"
  from elem_sum_mono[OF assms(3,4,6), of icount] assms(8)
  have "elem_sum icount ?es lo j1 + k1 < elem_sum icount ?es lo j2"
    by (simp add: icount_def)
  with assms(10) have in1: "iIndex s + elem_sum icount ?es lo j1 + k1 < length (uint16Arrays s ib)"
    by simp
  from assms(4,5) have j1hi: "j1 < hi"
    by simp
  from assms(3,4) have loj2: "lo \<le> j2"
    by simp
  have g1: "?w1 = to_uint16 (map_option (\<lambda>q. q + elem_sum vcount ?es lo j1 + of_nat (indices e1 ! k1))
                      (js_div (aIndex s) (vertexSize s)))"
    by (rule packInterleavedGeometry_index[OF assms(1,2,3) j1hi assms(6,8) in1])
  have g2: "?w2 = to_uint16 (map_option (\<lambda>q. q + elem_sum vcount ?es lo j2 + of_nat (indices e2 ! k2))
                      (js_div (aIndex s) (vertexSize s)))"
    by (rule packInterleavedGeometry_index[OF assms(1,2) loj2 assms(5,7,9,10)])
  have wf: "?w1 = ?b + elem_sum vertices ?es lo j1 + indices e1 ! k1
            \<and> ?w2 = ?b + elem_sum vertices ?es lo j2 + indices e2 ! k2
            \<and> ?w1 < ?b + elem_sum vertices ?es lo j1 + vertices e1
            \<and> ?b + elem_sum vertices ?es lo j1 + vertices e1 \<le> ?w2"
    if h: "0 < vertexSize s" "vertexSize s dvd aIndex s" "even_coordinates ?es lo hi"
      "indices e1 ! k1 < vertices e1"
      "?b + elem_sum vertices ?es lo j2 + indices e2 ! k2 < 65536"
  proof -
    note d = js_div_dvd[OF h(1,2)]
    have v1: "elem_sum vcount ?es lo j1 = of_nat (elem_sum vertices ?es lo j1)"
      using elem_sum_vcount_vertices[OF h(3) assms(3)] j1hi by simp
    have v2: "elem_sum vcount ?es lo j2 = of_nat (elem_sum vertices ?es lo j2)"
      using elem_sum_vcount_vertices[OF h(3) loj2] assms(5) by simp
    note m = elem_sum_mono[OF assms(3,4,6), of vertices]
    have s2: "?w2 = to_uint16 (Some (of_nat (?b + elem_sum vertices ?es lo j2 + indices e2 ! k2)))"
      unfolding g2 d v2 by simp
    have s1: "?w1 = to_uint16 (Some (of_nat (?b + elem_sum vertices ?es lo j1 + indices e1 ! k1)))"
      unfolding g1 d v1 by simp
    from m h(4,5) have lt1: "?b + elem_sum vertices ?es lo j1 + indices e1 ! k1 < 65536"
      by simp
    have e1: "?w1 = ?b + elem_sum vertices ?es lo j1 + indices e1 ! k1"
      unfolding s1 by (rule to_uint16_nat[OF lt1])
    have e2: "?w2 = ?b + elem_sum vertices ?es lo j2 + indices e2 ! k2"
      unfolding s2 by (rule to_uint16_nat[OF h(5)])
    from e1 e2 m h(4) show ?thesis
      by simp
  qed
  show ?thesis
    unfolding Let_def
  proof (intro conjI impI)
    show "?w1 = to_uint16 (map_option (\<lambda>q. q + elem_sum vcount ?es lo j1 + of_nat (indices e1 ! k1))
                      (js_div (aIndex s) (vertexSize s)))"
      by (rule g1)
    show "?w2 = to_uint16 (map_option (\<lambda>q. q + elem_sum vcount ?es lo j2 + of_nat (indices e2 ! k2))
                      (js_div (aIndex s) (vertexSize s)))"
      by (rule g2)
  next
    assume a: "0 < vertexSize s \<and> vertexSize s dvd aIndex s \<and> even_coordinates ?es lo hi
              \<and> indices e1 ! k1 < vertices e1
              \<and> ?b + elem_sum vertices ?es lo j2 + indices e2 ! k2 < 65536"
    then have "0 < vertexSize s" "vertexSize s dvd aIndex s" "even_coordinates ?es lo hi"
      "indices e1 ! k1 < vertices e1"
      "?b + elem_sum vertices ?es lo j2 + indices e2 ! k2 < 65536"
      by blast+
    from wf[OF this]
    show "?w1 = ?b + elem_sum vertices ?es lo j1 + indices e1 ! k1"
      and "?w2 = ?b + elem_sum vertices ?es lo j2 + indices e2 ! k2"
      and "?w1 < ?b + elem_sum vertices ?es lo j1 + vertices e1"
      and "?b + elem_sum vertices ?es lo j1 + vertices e1 \<le> ?w2"
      by blast+
  qed
qed

theorem packed_indices_offset_witness:
  "packInterleavedGeometry env0 0 2
      (begin_flush env0 (after [render env0 (quad 0 0), render env0 (quad 0 0)] init0))
     = Inr (after [packInterleavedGeometry env0 0 2]
              (begin_flush env0 (after [render env0 (quad 0 0), render env0 (quad 0 0)] init0)))
   \<and> indices (quad 0 0) ! 1 = 1 \<and> indices (quad 0 0) ! 0 = 0
   \<and> uint16Arrays
        (after [packInterleavedGeometry env0 0 2]
           (begin_flush env0 (after [render env0 (quad 0 0), render env0 (quad 0 0)] init0))) 1 ! 1
       = 1
   \<and> uint16Arrays
        (after [packInterleavedGeometry env0 0 2]
           (begin_flush env0 (after [render env0 (quad 0 0), render env0 (quad 0 0)] init0))) 1 ! 6
       = 4"
proof -
  define s0 where "s0 = begin_flush env0
     (after [render env0 (quad 0 0), render env0 (quad 0 0)] init0)"
  define s1 where "s1 = after [packInterleavedGeometry env0 0 2] s0"
  have isr: "case run [packInterleavedGeometry env0 0 2] s0 of Inl e \<Rightarrow> False | Inr s' \<Rightarrow> True"
    unfolding s0_def by code_simp
  have h1: "packInterleavedGeometry env0 0 2 s0 = Inr s1"
    unfolding s1_def by (rule run_single[OF run_after[OF isr]])
  have h2: "indexBuffer s0 = Some 1"
    unfolding s0_def by code_simp
  have e0: "js_get (bufferedElements s0) 0 = Some (quad 0 0)"
    and e1: "js_get (bufferedElements s0) 1 = Some (quad 0 0)"
    unfolding s0_def by code_simp+
  have k: "1 < length (indices (quad 0 0))" "0 < length (indices (quad 0 0))"
    by code_simp+
  have v: "iIndex s0 = 0" "aIndex s0 = 0" "vertexSize s0 = 6"
    "elem_sum icount (bufferedElements s0) 0 0 = 0"
    "elem_sum icount (bufferedElements s0) 0 1 = 6"
    "elem_sum vertices (bufferedElements s0) 0 0 = 0"
    "elem_sum vertices (bufferedElements s0) 0 1 = 4"
    "length (uint16Arrays s0 1) = 12"
    "indices (quad 0 0) ! 1 = 1" "indices (quad 0 0) ! 0 = 0" "vertices (quad 0 0) = 4"
    unfolding s0_def by code_simp+
  have ev: "even_coordinates (bufferedElements s0) 0 2"
    unfolding s0_def by code_simp
  have b: "iIndex s0 + elem_sum icount (bufferedElements s0) 0 1 + 0 < length (uint16Arrays s0 1)"
    unfolding v by simp
  have wf: "0 < vertexSize s0 \<and> vertexSize s0 dvd aIndex s0
      \<and> even_coordinates (bufferedElements s0) 0 2
      \<and> indices (quad 0 0) ! 1 < vertices (quad 0 0)
      \<and> aIndex s0 div vertexSize s0 + elem_sum vertices (bufferedElements s0) 0 1
          + indices (quad 0 0) ! 0 < 65536"
    using ev unfolding v by simp
  from packed_indices_offset[OF h1 h2 _ _ _ e0 e1 k b, unfolded Let_def,
         THEN conjunct2, THEN conjunct2, THEN mp, OF _ _ _ wf]
  have "uint16Arrays s1 1 ! (iIndex s0 + elem_sum icount (bufferedElements s0) 0 0 + 1)
          = aIndex s0 div vertexSize s0 + elem_sum vertices (bufferedElements s0) 0 0
            + indices (quad 0 0) ! 1
        \<and> uint16Arrays s1 1 ! (iIndex s0 + elem_sum icount (bufferedElements s0) 0 1 + 0)
          = aIndex s0 div vertexSize s0 + elem_sum vertices (bufferedElements s0) 0 1
            + indices (quad 0 0) ! 0"
    by simp
  then have "uint16Arrays s1 1 ! 1 = 1 \<and> uint16Arrays s1 1 ! 6 = 4"
    unfolding v by simp
  with h1 v(9,10) show ?thesis
    unfolding s1_def s0_def by blast
qed



end
